theory Spec2Isabelle
  imports Complex_Main
begin

section \<open>JavaScript values and built-ins used by the scripts\<close>

text \<open>
  Three scripts are embedded: the TensorFlow.js page (\<open>src/unnamed/part_000\<close>, names
  without suffix), the MediaPipe page with overlay toggles (\<open>src/unnamed/part_001\<close>, suffix
  \<open>_p1\<close>) and the older MediaPipe page (\<open>public/script_bkp.js\<close>, suffix \<open>_bkp\<close>).

  Numbers: a finger count is a natural number. Coordinates, angles and the smoothing
  arithmetic are IEEE doubles in the scripts and exact reals here. For the smoothing
  formula this changes nothing: with integers \<open>p\<close> and \<open>m\<close> the exact value of
  \<open>0.6 p + 0.4 m\<close> is a multiple of \<open>1/5\<close>, so it is at least \<open>1/10\<close> away from every
  rounding tie, far more than the error of double arithmetic. For the geometry the reals
  are an idealisation: NaN, infinities and underflow are not represented.

  Strings are byte lists; the one non-ASCII literal of the scripts, the em dash shown
  when no hand is present, is written as its three UTF-8 bytes.
\<close>

datatype js_error = TypeError

definition Math_round :: "real \<Rightarrow> int" where
  \<comment> \<open>\<open>Math.round\<close>: nearest integer, a tie goes up.\<close>
  "Math_round v = \<lfloor>v + 1 / 2\<rfloor>"

definition digit_char :: "nat \<Rightarrow> char" where
  "digit_char d = char_of (48 + d)"

function js_toString :: "nat \<Rightarrow> string" where
  \<comment> \<open>The decimal text of a non-negative integer: template literals and property keys.\<close>
  "js_toString n =
     (if n < 10 then [digit_char n] else js_toString (n div 10) @ [digit_char (n mod 10)])"
  by pat_completeness auto
termination
  by (relation "measure (\<lambda>n. n)") auto

declare js_toString.simps [simp del]

definition is_digit :: "char \<Rightarrow> bool" where
  "is_digit c = (48 \<le> (of_char c :: nat) \<and> (of_char c :: nat) \<le> 57)"

definition dec_value :: "string \<Rightarrow> nat" where
  "dec_value s = foldl (\<lambda>a c. 10 * a + ((of_char c :: nat) - 48)) 0 s"

definition js_Number :: "string \<Rightarrow> nat option" where
  \<comment> \<open>\<open>Number(s)\<close> on a string of decimal digits (the empty string gives 0). \<open>None\<close> stands
      for every other string; \<open>Number\<close> is only applied to keys made from counts.\<close>
  "js_Number s = (if list_all is_digit s then Some (dec_value s) else None)"

definition is_array_index :: "string \<Rightarrow> bool" where
  \<comment> \<open>A property key that is the canonical decimal text of an integer below \<open>2^32 - 1\<close>.\<close>
  "is_array_index s =
     (case s of
        [] \<Rightarrow> False
      | c # cs \<Rightarrow> list_all is_digit s \<and> (if c = CHR ''0'' then cs = [] else True)
                  \<and> dec_value s < 4294967295)"

definition NO_HAND :: string where
  \<comment> \<open>The em dash of \<open>smoothHand = '\<dots>'\<close> and \<open>'Hand: \<dots>'\<close>, in UTF-8.\<close>
  "NO_HAND = [char_of (226 :: nat), char_of (128 :: nat), char_of (148 :: nat)]"

subsection \<open>The counting object\<close>

text \<open>
  \<open>const counts = {}\<close> is a table of own properties in creation order, each holding a
  number. \<open>counts[v] = (counts[v] || 0) + 1\<close> creates the key \<open>v\<close> with 1 or adds 1 to it.
  \<open>Object.keys\<close> lists the array-index keys first, in ascending numeric order, and then
  the other keys in creation order. The keys are the texts of finger counts and handedness
  labels. A label that names a member of \<open>Object.prototype\<close> (such as \<open>constructor\<close> or
  \<open>__proto__\<close>) would read the inherited member in \<open>counts[v]\<close>; such labels are outside
  this table model, and statements about labels say so (\<open>plain_key\<close>).
\<close>

type_synonym counts_obj = "(string \<times> nat) list"

definition Object_prototype_names :: "string list" where
  "Object_prototype_names =
     [''constructor'', ''__defineGetter__'', ''__defineSetter__'', ''hasOwnProperty'',
      ''__lookupGetter__'', ''__lookupSetter__'', ''isPrototypeOf'',
      ''propertyIsEnumerable'', ''toString'', ''valueOf'', ''__proto__'',
      ''toLocaleString'']"

definition plain_key :: "string \<Rightarrow> bool" where
  "plain_key k = (k \<notin> set Object_prototype_names)"

definition held :: "counts_obj \<Rightarrow> string \<Rightarrow> nat" where
  \<comment> \<open>\<open>counts[k] || 0\<close>\<close>
  "held counts k = (case map_of counts k of None \<Rightarrow> 0 | Some n \<Rightarrow> n)"

definition bump :: "counts_obj \<Rightarrow> string \<Rightarrow> counts_obj" where
  \<comment> \<open>\<open>counts[v] = (counts[v] || 0) + 1\<close>: a new key goes to the end of the table.\<close>
  "bump counts v =
     (let n = held counts v + 1
      in case map_of counts v of
           None \<Rightarrow> counts @ [(v, n)]
         | Some old \<Rightarrow> map (\<lambda>(k, c). if k = v then (k, n) else (k, c)) counts)"

definition tally :: "string list \<Rightarrow> counts_obj" where
  \<comment> \<open>\<open>const counts = {}; for (const v of arr) counts[v] = (counts[v] || 0) + 1;\<close>\<close>
  "tally arr = foldl bump [] arr"

definition Object_keys :: "counts_obj \<Rightarrow> string list" where
  "Object_keys obj =
     (let ks = map fst obj
      in sort_key dec_value (filter is_array_index ks)
         @ filter (\<lambda>k. \<not> is_array_index k) ks)"

definition prop_gt :: "counts_obj \<Rightarrow> string \<Rightarrow> string \<Rightarrow> bool" where
  \<comment> \<open>\<open>counts[a] > counts[b]\<close>; a missing property is \<open>undefined\<close> and compares false.\<close>
  "prop_gt counts a b =
     (case (map_of counts a, map_of counts b) of
        (Some m, Some n) \<Rightarrow> m > n
      | _ \<Rightarrow> False)"

definition reduce_keys :: "counts_obj \<Rightarrow> js_error + string" where
  \<comment> \<open>\<open>Object.keys(counts).reduce((a, b) => counts[a] > counts[b] ? a : b)\<close>: no initial
      value, so an empty key list throws a TypeError.\<close>
  "reduce_keys counts =
     (case Object_keys counts of
        [] \<Rightarrow> Inl TypeError
      | k # ks \<Rightarrow> Inr (foldl (\<lambda>a b. if prop_gt counts a b then a else b) k ks))"

definition mode_p1 :: "string list \<Rightarrow> js_error + string" where
  \<comment> \<open>\<open>mode\<close> of part_001, on the keys of the array's elements.\<close>
  "mode_p1 arr = reduce_keys (tally arr)"

definition mode_bkp :: "string list \<Rightarrow> string option" where
  \<comment> \<open>\<open>mode\<close> of script_bkp.js: \<open>best\<close> starts as \<open>null\<close> (\<open>None\<close>) and is replaced only by
      a key with a strictly greater count.\<close>
  "mode_bkp arr =
     (let counts = tally arr
      in foldl (\<lambda>best k. case best of
                   None \<Rightarrow> Some k
                 | Some b \<Rightarrow> if prop_gt counts k b then Some k else best)
           None (Object_keys counts))"

section \<open>Geometry and finger classification\<close>

record keypoint =
  px :: real
  py :: real
  pz :: "real option"

definition point2 :: "real \<Rightarrow> real \<Rightarrow> keypoint" where
  \<comment> \<open>A keypoint \<open>{x, y}\<close> without \<open>z\<close>.\<close>
  "point2 u v = \<lparr>px = u, py = v, pz = None\<rparr>"

definition z_or_0 :: "keypoint \<Rightarrow> real" where
  \<comment> \<open>\<open>a.z || 0\<close>\<close>
  "z_or_0 a = (case pz a of None \<Rightarrow> 0 | Some v \<Rightarrow> v)"

definition Math_hypot :: "real \<Rightarrow> real \<Rightarrow> real \<Rightarrow> real" where
  "Math_hypot u v w = sqrt (u * u + v * v + w * w)"

definition angleBetween :: "keypoint \<Rightarrow> keypoint \<Rightarrow> keypoint \<Rightarrow> real" where
  \<comment> \<open>\<open>angleBetween\<close> of part_000; \<open>angleBetweenPoints\<close> of the other two scripts is the
      same text.\<close>
  "angleBetween a b c =
     (let abx = px a - px b; aby = py a - py b; abz = z_or_0 a - z_or_0 b;
          cbx = px c - px b; cby = py c - py b; cbz = z_or_0 c - z_or_0 b;
          dot = abx * cbx + aby * cby + abz * cbz;
          mag1 = Math_hypot abx aby abz;
          mag2 = Math_hypot cbx cby cbz
      in if mag1 = 0 \<or> mag2 = 0 then 0
         else (let cos0 = dot / (mag1 * mag2);
                   cos1 = max (- 1) (min 1 cos0)
               in arccos cos1 * (180 / pi)))"

record analysis =
  extended :: "bool list"
  count :: nat

definition joint_angle :: "keypoint list \<Rightarrow> nat \<Rightarrow> nat \<Rightarrow> nat \<Rightarrow> js_error + real" where
  \<comment> \<open>\<open>angleBetween(landmarks[i], landmarks[j], landmarks[k])\<close>: an index past the end
      reads \<open>undefined\<close>, and reading its \<open>x\<close> throws.\<close>
  "joint_angle landmarks i j k =
     (if i < length landmarks \<and> j < length landmarks \<and> k < length landmarks
      then Inr (angleBetween (landmarks ! i) (landmarks ! j) (landmarks ! k))
      else Inl TypeError)"

definition straighter_than :: "real \<Rightarrow> js_error + real \<Rightarrow> bool" where
  \<comment> \<open>\<open>try { extended[..] = ang > limit } catch (e) { extended[..] = false }\<close>\<close>
  "straighter_than limit r = (case r of Inr ang \<Rightarrow> ang > limit | Inl e \<Rightarrow> False)"

definition fingers :: "(nat \<times> nat \<times> nat) list" where
  "fingers = [(5, 6, 8), (9, 10, 12), (13, 14, 16), (17, 18, 20)]"

definition analyzeLandmarks :: "keypoint list \<Rightarrow> analysis" where
  \<comment> \<open>\<open>analyzeLandmarks\<close> of part_000; \<open>analyzeHand\<close> of the other two scripts is the same
      text.\<close>
  "analyzeLandmarks landmarks =
     (let thumb = straighter_than 150 (joint_angle landmarks 2 3 4);
          others = map (\<lambda>(mcp, pip, tip). straighter_than 160 (joint_angle landmarks mcp pip tip))
                     fingers;
          ext = thumb # others
      in \<lparr>extended = ext, count = foldl (\<lambda>s v. s + (if v then 1 else 0)) 0 ext\<rparr>)"

section \<open>Temporal smoothing of part_000\<close>

record ui =
  statusEl :: string
  handedEl :: string
  countEl :: string

record globals = ui +
  countHistory :: "nat list"
  handHistory :: "string list"
  smoothCount :: nat
  smoothHand :: string

definition COUNT_HISTORY :: nat where
  "COUNT_HISTORY = 8"

definition HAND_HISTORY :: nat where
  "HAND_HISTORY = 8"

definition push_shift :: "nat \<Rightarrow> 'a list \<Rightarrow> 'a \<Rightarrow> 'a list" where
  \<comment> \<open>\<open>arr.push(v); if (arr.length > cap) arr.shift();\<close>\<close>
  "push_shift cap arr v = (let arr1 = arr @ [v] in if length arr1 > cap then tl arr1 else arr1)"

definition median :: "nat list \<Rightarrow> nat" where
  \<comment> \<open>Lines 114 to 116 of part_000. The history was pushed to just before, so it is not
      empty and both reads are inside \<open>sorted\<close> (lemma \<open>push_shift_not_empty\<close>).\<close>
  "median hist =
     (let sorted = sort hist; mid = length sorted div 2
      in if length sorted mod 2 = 1 then sorted ! mid
         else nat (Math_round ((real (sorted ! (mid - 1)) + real (sorted ! mid)) / 2)))"

definition pushHistory :: "globals \<Rightarrow> nat \<Rightarrow> string \<Rightarrow> globals \<times> js_error option" where
  \<comment> \<open>The globals after the call, and the exception that left it, if any: the three
      assignments before the \<open>reduce\<close> stay in effect when it throws.\<close>
  "pushHistory g cnt handLabel =
     (let ch = push_shift COUNT_HISTORY (countHistory g) cnt;
          hh = push_shift HAND_HISTORY (handHistory g) handLabel;
          sc = nat (Math_round (real (smoothCount g) * 0.6 + real (median ch) * 0.4));
          g1 = g\<lparr>countHistory := ch, handHistory := hh, smoothCount := sc\<rparr>
      in case reduce_keys (tally hh) of
           Inl e \<Rightarrow> (g1, Some e)
         | Inr h \<Rightarrow> (g1\<lparr>smoothHand := h\<rparr>, None))"

definition initial_globals :: globals where
  \<comment> \<open>The globals when the script has loaded (lines 102 to 105 and 290); the two texts
      that only the page's markup sets are left empty.\<close>
  "initial_globals =
     \<lparr>statusEl = ''Loading TF detector...'', handedEl = [], countEl = [],
      countHistory = [], handHistory = [], smoothCount = 0, smoothHand = NO_HAND\<rparr>"

fun observe_all :: "globals \<Rightarrow> (nat \<times> string) list \<Rightarrow> globals" where
  \<comment> \<open>One call of \<open>pushHistory\<close> per observation, in order.\<close>
  "observe_all g [] = g"
| "observe_all g ((cnt, handLabel) # obs) = observe_all (fst (pushHistory g cnt handLabel)) obs"

section \<open>Frame processing of part_000\<close>

text \<open>
  \<open>processFrame\<close> is modelled from the detector's answer onward: a frame that arrives
  before the model is loaded or before the video has data is not processed at all. Drawing
  on the canvas is left out; what is kept of it is, for every selected hand, whether it
  was skipped or analysed and shown. The canvas width and height are positive: the page
  sets them from non-zero video sizes only.
\<close>

record hand =
  keypoints3D :: "keypoint list option"
  keypoints :: "keypoint list option"
  handedness :: "string option list option"

record settings =
  showSkeleton :: bool
  multiHand :: bool
  mirror :: bool

datatype detection = Threw | Hands "hand list"

datatype hand_outcome = Skipped | Shown "keypoint list" analysis string

definition maxHands :: "settings \<Rightarrow> nat" where
  "maxHands cfg = (if multiHand cfg then 2 else 1)"

definition or_Unknown :: "string option \<Rightarrow> string" where
  \<comment> \<open>\<open>label || 'Unknown'\<close>: a missing or empty label gives \<open>'Unknown'\<close>.\<close>
  "or_Unknown l = (case l of None \<Rightarrow> ''Unknown'' | Some s \<Rightarrow> if s = [] then ''Unknown'' else s)"

definition rawLabel :: "hand \<Rightarrow> string" where
  \<comment> \<open>Lines 238 and 239 of part_000.\<close>
  "rawLabel h =
     (case handedness h of
        None \<Rightarrow> ''Unknown''
      | Some [] \<Rightarrow> ''Unknown''
      | Some (e # es) \<Rightarrow> or_Unknown e)"

definition mirrorLabel :: "bool \<Rightarrow> string \<Rightarrow> string" where
  \<comment> \<open>Lines 241 to 244 of part_000; with \<open>True\<close>, the selfie flip of the other two scripts.\<close>
  "mirrorLabel m handednessLabel =
     (if m then (if handednessLabel = ''Left'' then ''Right''
                 else if handednessLabel = ''Right'' then ''Left''
                 else handednessLabel)
      else handednessLabel)"

definition hand_keypoints :: "hand \<Rightarrow> keypoint list option" where
  \<comment> \<open>\<open>h.keypoints3D || h.keypoints\<close>\<close>
  "hand_keypoints h = (case keypoints3D h of Some k3 \<Rightarrow> Some k3 | None \<Rightarrow> keypoints h)"

definition has_21_keypoints :: "hand \<Rightarrow> bool" where
  \<comment> \<open>\<open>keypoints && keypoints.length === 21\<close>\<close>
  "has_21_keypoints h =
     (case hand_keypoints h of None \<Rightarrow> False | Some kps \<Rightarrow> length kps = 21)"

definition landmarks_of :: "hand \<Rightarrow> keypoint list option" where
  \<comment> \<open>Line 224 of part_000; \<open>None\<close> is \<open>null\<close>.\<close>
  "landmarks_of h =
     (if has_21_keypoints h
      then map_option (map (\<lambda>k. \<lparr>px = px k, py = py k, pz = Some (z_or_0 k)\<rparr>))
             (hand_keypoints h)
      else None)"

definition normLandmarks_of :: "real \<Rightarrow> real \<Rightarrow> keypoint list option \<Rightarrow> keypoint list option" where
  \<comment> \<open>Lines 227 to 231 of part_000.\<close>
  "normLandmarks_of cw ch landmarks =
     (case landmarks of
        None \<Rightarrow> None
      | Some [] \<Rightarrow> Some []
      | Some (l0 # ls) \<Rightarrow>
          if px l0 > 1.5
          then Some (map (\<lambda>pt. \<lparr>px = px pt / cw, py = py pt / ch, pz = pz pt\<rparr>) (l0 # ls))
          else Some (l0 # ls))"

definition examine :: "settings \<Rightarrow> real \<Rightarrow> real \<Rightarrow> hand \<Rightarrow> hand_outcome" where
  \<comment> \<open>Lines 222 to 244 of part_000, the part of the loop body that does not touch the
      globals: \<open>Skipped\<close> is the \<open>continue\<close> of line 234.\<close>
  "examine cfg cw ch h =
     (case normLandmarks_of cw ch (landmarks_of h) of
        None \<Rightarrow> Skipped
      | Some normLandmarks \<Rightarrow>
          if length normLandmarks \<noteq> 21 then Skipped
          else Shown normLandmarks (analyzeLandmarks normLandmarks)
                 (mirrorLabel (mirror cfg) (rawLabel h)))"

fun show_hands ::
  "settings \<Rightarrow> real \<Rightarrow> real \<Rightarrow> nat \<Rightarrow> hand list \<Rightarrow> globals
     \<Rightarrow> globals \<times> hand_outcome list \<times> js_error option" where
  \<comment> \<open>The \<open>for\<close> loop of lines 221 to 271, from index \<open>i\<close> on: the globals after it, what
      became of each hand, and the exception that ended it, if any.\<close>
  "show_hands cfg cw ch i [] g = (g, [], None)"
| "show_hands cfg cw ch i (h # hs) g =
     (case examine cfg cw ch h of
        Skipped \<Rightarrow>
          (case show_hands cfg cw ch (i + 1) hs g of
             (g2, outs, err) \<Rightarrow> (g2, Skipped # outs, err))
      | Shown normLandmarks an handednessLabel \<Rightarrow>
          (case (if i = 0 then pushHistory g (count an) handednessLabel else (g, None)) of
             (g1, Some e) \<Rightarrow> (g1, [], Some e)
           | (g1, None) \<Rightarrow>
               (case show_hands cfg cw ch (i + 1) hs g1 of
                  (g2, outs, err) \<Rightarrow>
                    (g2, Shown normLandmarks an handednessLabel # outs, err))))"

definition shownHands :: "settings \<Rightarrow> hand list \<Rightarrow> hand list" where
  \<comment> \<open>\<open>hands.slice(0, maxHands)\<close>\<close>
  "shownHands cfg hands = take (maxHands cfg) hands"

definition processFrame ::
  "settings \<Rightarrow> real \<Rightarrow> real \<Rightarrow> detection \<Rightarrow> globals
     \<Rightarrow> globals \<times> hand_outcome list \<times> js_error option" where
  "processFrame cfg cw ch det g =
     (let hands = (case det of Threw \<Rightarrow> [] | Hands hs \<Rightarrow> hs)
      in if length hands > 0
         then (case show_hands cfg cw ch 0 (shownHands cfg hands) g of
                 (g1, outs, Some e) \<Rightarrow> (g1, outs, Some e)
               | (g1, outs, None) \<Rightarrow>
                   (g1\<lparr>countEl := ''Fingers: '' @ js_toString (smoothCount g1),
                       handedEl := ''Hand: '' @ smoothHand g1,
                       statusEl := ''Detected '' @ js_toString (length hands) @ '' hand(s)''\<rparr>,
                    outs, None))
         else (g\<lparr>statusEl := ''No hands detected'', countEl := ''Fingers: 0'',
                  handedEl := ''Hand: '' @ NO_HAND,
                  countHistory := [], handHistory := [], smoothCount := 0,
                  smoothHand := NO_HAND\<rparr>,
               [], None))"

section \<open>The MediaPipe pages: part_001 and script_bkp.js\<close>

text \<open>
  Both pages keep the same globals and smooth by \<open>mode\<close>. The drawing helpers of MediaPipe
  are left out. The fingertip highlight reads \<open>landmarks[4]\<close>, \<open>[8]\<close>, \<open>[12]\<close>, \<open>[16]\<close> and
  \<open>[20]\<close> and throws on the first that is missing; the globals assigned before stay as they
  are, and the next frame calls \<open>onResults\<close> again.
\<close>

record results =
  multiHandLandmarks :: "keypoint list list option"
  multiHandedness :: "string option list option"

record mp_globals = ui +
  countHistory_mp :: "nat list"
  handedHistory :: "string list"

definition initial_globals_p1 :: mp_globals where
  \<comment> \<open>The globals of part_001 once the camera has started (lines 79, 80 and 180); the
      two texts that only the page's markup sets are left empty.\<close>
  "initial_globals_p1 =
     \<lparr>statusEl = ''Camera started. Show your hand.'', handedEl = [], countEl = [],
      countHistory_mp = [], handedHistory = []\<rparr>"

definition HISTORY_MAX_p1 :: nat where
  "HISTORY_MAX_p1 = 8"

definition HISTORY_MAX_bkp :: nat where
  "HISTORY_MAX_bkp = 6"

definition tipIndices :: "nat list" where
  "tipIndices = [4, 8, 12, 16, 20]"

definition tips_present :: "keypoint list \<Rightarrow> bool" where
  "tips_present landmarks = list_all (\<lambda>t. t < length landmarks) tipIndices"

definition highlight_tips :: "keypoint list \<Rightarrow> js_error option" where
  \<comment> \<open>The loop over \<open>tipIndices\<close>: \<open>lm.x\<close> throws when \<open>landmarks[tipIndices[t]]\<close> is
      \<open>undefined\<close>.\<close>
  "highlight_tips landmarks = (if tips_present landmarks then None else Some TypeError)"

definition label_at :: "string option list option \<Rightarrow> nat \<Rightarrow> string" where
  \<comment> \<open>\<open>results.multiHandedness?.[i]?.label || 'Unknown'\<close>\<close>
  "label_at mh i =
     (case mh of
        None \<Rightarrow> ''Unknown''
      | Some es \<Rightarrow> if i < length es then or_Unknown (es ! i) else ''Unknown'')"

definition count_text :: "nat option \<Rightarrow> string" where
  \<comment> \<open>\<open>`Fingers: ${displayedCount}`\<close>\<close>
  "count_text d = ''Fingers: '' @ (case d of Some n \<Rightarrow> js_toString n | None \<Rightarrow> ''NaN'')"

definition handsToShow :: "bool \<Rightarrow> nat \<Rightarrow> nat" where
  \<comment> \<open>Lines 92 to 94 of part_001.\<close>
  "handsToShow showMultipleHands n = (if showMultipleHands then n else min 1 n)"


fun show_hands_p1 ::
  "string option list option \<Rightarrow> nat \<Rightarrow> keypoint list list \<Rightarrow> mp_globals
     \<Rightarrow> mp_globals \<times> (analysis \<times> string) list \<times> js_error option" where
  \<comment> \<open>The \<open>for\<close> loop of lines 96 to 135 of part_001, from index \<open>i\<close> on; the result lists
      the analysis and label of every hand the loop analysed.\<close>
  "show_hands_p1 mh i [] g = (g, [], None)"
| "show_hands_p1 mh i (landmarks # rest) g =
     (let handednessLabel = mirrorLabel True (label_at mh i);
          an = analyzeLandmarks landmarks;
          g1 = (if i = 0
                then g\<lparr>countHistory_mp := push_shift HISTORY_MAX_p1 (countHistory_mp g) (count an),
                       handedHistory := push_shift HISTORY_MAX_p1 (handedHistory g) handednessLabel\<rparr>
                else g)
      in case highlight_tips landmarks of
           Some e \<Rightarrow> (g1, [(an, handednessLabel)], Some e)
         | None \<Rightarrow>
             (case show_hands_p1 mh (i + 1) rest g1 of
                (g2, outs, err) \<Rightarrow> (g2, (an, handednessLabel) # outs, err)))"

definition displayedCount_p1 :: "nat list \<Rightarrow> js_error + nat option" where
  \<comment> \<open>\<open>Number(mode(countHistory))\<close> of part_001.\<close>
  "displayedCount_p1 hist =
     (case mode_p1 (map js_toString hist) of Inl e \<Rightarrow> Inl e | Inr c \<Rightarrow> Inr (js_Number c))"

definition display_p1 :: "mp_globals \<Rightarrow> mp_globals \<times> js_error option" where
  \<comment> \<open>Lines 138 to 144 of part_001.\<close>
  "display_p1 g =
     (case displayedCount_p1 (countHistory_mp g) of
        Inl e \<Rightarrow> (g, Some e)
      | Inr displayedCount \<Rightarrow>
          (case mode_p1 (handedHistory g) of
             Inl e \<Rightarrow> (g, Some e)
           | Inr displayedHand \<Rightarrow>
               (g\<lparr>statusEl := ''Hand detected'',
                   countEl := count_text displayedCount,
                   handedEl := ''Hand: '' @ displayedHand\<rparr>, None)))"

definition no_hands_mp :: "mp_globals \<Rightarrow> mp_globals" where
  \<comment> \<open>The \<open>else\<close> branch of \<open>onResults\<close>, the same in both pages.\<close>
  "no_hands_mp g =
     g\<lparr>statusEl := ''No hands detected'', countEl := ''Fingers: 0'',
       handedEl := ''Hand: '' @ NO_HAND, countHistory_mp := [], handedHistory := []\<rparr>"

definition onResults_p1 ::
  "bool \<Rightarrow> results \<Rightarrow> mp_globals \<Rightarrow> mp_globals \<times> (analysis \<times> string) list \<times> js_error option" where
  "onResults_p1 showMultipleHands res g =
     (case multiHandLandmarks res of
        None \<Rightarrow> (no_hands_mp g, [], None)
      | Some [] \<Rightarrow> (no_hands_mp g, [], None)
      | Some (h0 # hs) \<Rightarrow>
          (case show_hands_p1 (multiHandedness res) 0
                  (take (handsToShow showMultipleHands (length (h0 # hs))) (h0 # hs)) g of
             (g1, outs, Some e) \<Rightarrow> (g1, outs, Some e)
           | (g1, outs, None) \<Rightarrow> (case display_p1 g1 of (g2, err) \<Rightarrow> (g2, outs, err))))"

definition displayedCount_bkp :: "nat list \<Rightarrow> nat option" where
  \<comment> \<open>\<open>Number(mode(countHistory))\<close> of script_bkp.js; \<open>Number(null)\<close> is 0.\<close>
  "displayedCount_bkp hist =
     (case mode_bkp (map js_toString hist) of None \<Rightarrow> Some 0 | Some c \<Rightarrow> js_Number c)"

definition display_bkp :: "mp_globals \<Rightarrow> mp_globals" where
  \<comment> \<open>Lines 133 to 139 of script_bkp.js; \<open>null\<close> prints as \<open>null\<close>.\<close>
  "display_bkp g =
     (let displayedCount = displayedCount_bkp (countHistory_mp g);
          displayedHand = (case mode_bkp (handedHistory g) of
                             None \<Rightarrow> ''null'' | Some l \<Rightarrow> l)
      in g\<lparr>statusEl := ''Hand detected'',
           countEl := count_text displayedCount,
           handedEl := ''Hand: '' @ displayedHand\<rparr>)"

definition onResults_bkp ::
  "results \<Rightarrow> mp_globals \<Rightarrow> mp_globals \<times> (analysis \<times> string) list \<times> js_error option" where
  "onResults_bkp res g =
     (case multiHandLandmarks res of
        None \<Rightarrow> (no_hands_mp g, [], None)
      | Some [] \<Rightarrow> (no_hands_mp g, [], None)
      | Some (primaryLandmarks # hs) \<Rightarrow>
          (let handednessLabel = mirrorLabel True (label_at (multiHandedness res) 0);
               an = analyzeLandmarks primaryLandmarks;
               g1 = g\<lparr>countHistory_mp := push_shift HISTORY_MAX_bkp (countHistory_mp g) (count an),
                      handedHistory := push_shift HISTORY_MAX_bkp (handedHistory g) handednessLabel\<rparr>
           in (display_bkp g1, [(an, handednessLabel)], highlight_tips primaryLandmarks)))"

definition smoother_reset :: "globals \<Rightarrow> bool" where
  \<comment> \<open>Empty windows, and the values and texts shown when no hand is present.\<close>
  "smoother_reset g =
     (countHistory g = [] \<and> handHistory g = [] \<and> smoothCount g = 0 \<and> smoothHand g = NO_HAND
      \<and> countEl g = ''Fingers: 0'' \<and> handedEl g = ''Hand: '' @ NO_HAND)"

definition mp_reset :: "mp_globals \<Rightarrow> bool" where
  "mp_reset g =
     (countHistory_mp g = [] \<and> handedHistory g = []
      \<and> countEl g = ''Fingers: 0'' \<and> handedEl g = ''Hand: '' @ NO_HAND)"

section \<open>The specification's wording, for comparison\<close>

definition spec_median :: "nat list \<Rightarrow> real" where
  \<comment> \<open>Stated from the specification: the middle value of the sorted window, or the
      average of the two middle values, not rounded, when the length is even.\<close>
  "spec_median hist =
     (let sorted = sort hist; mid = length sorted div 2
      in if length sorted mod 2 = 1 then real (sorted ! mid)
         else (real (sorted ! (mid - 1)) + real (sorted ! mid)) / 2)"

definition spec_blend :: "nat \<Rightarrow> nat list \<Rightarrow> int" where
  \<comment> \<open>Stated from the specification: \<open>round(0.6 \<times> previous_displayed + 0.4 \<times> median)\<close>.\<close>
  "spec_blend previous hist = Math_round (0.6 * real previous + 0.4 * spec_median hist)"

definition most_frequent :: "'a list \<Rightarrow> 'a \<Rightarrow> bool" where
  \<comment> \<open>\<open>v\<close> occurs in \<open>arr\<close>, and no element of \<open>arr\<close> occurs more often.\<close>
  "most_frequent arr v = (v \<in> set arr \<and> list_all (\<lambda>u. count_list arr u \<le> count_list arr v) arr)"

definition spec_mode :: "string list \<Rightarrow> string option" where
  \<comment> \<open>Stated from the specification: the most frequent value, a tie going to the key met
      first in the iteration order of the keys.\<close>
  "spec_mode arr = find (most_frequent arr) (Object_keys (tally arr))"

section \<open>Verification\<close>

subsection \<open>Bounded windows\<close>

lemma push_shift_drop:
  assumes "length w \<le> N"
  shows "push_shift N w v = drop (Suc (length w) - N) (w @ [v])"
proof (cases "length w = N")
  case True
  then have "Suc (length w) - N = Suc 0" by simp
  moreover have "drop (Suc 0) (w @ [v]) = tl (w @ [v])"
    by (simp add: drop_Suc del: drop_append)
  ultimately show ?thesis using True by (simp add: push_shift_def Let_def del: drop_append)
next
  case False
  with assms have "Suc (length w) - N = 0" by simp
  then show ?thesis using False assms by (simp add: push_shift_def Let_def)
qed

lemma push_shift_length: "length w \<le> N \<Longrightarrow> length (push_shift N w v) \<le> N"
  by (auto simp: push_shift_def Let_def)

lemma drop_window_step:
  "drop (Suc (length (drop (length xs - N) xs)) - N) (drop (length xs - N) xs @ [v])
     = drop (Suc (length xs) - N) (xs @ [v])"
proof (cases "length xs \<le> N")
  case True
  then show ?thesis by simp
next
  case False
  then have k: "Suc (length xs) - N = Suc (length xs - N)" by simp
  from False have "Suc (length (drop (length xs - N) xs)) - N = Suc 0" by simp
  then have "drop (Suc (length (drop (length xs - N) xs)) - N) (drop (length xs - N) xs @ [v])
               = drop (Suc 0) (drop (length xs - N) (xs @ [v]))" by simp
  also have "\<dots> = drop (Suc (length xs - N)) (xs @ [v])" by (simp del: drop_append)
  finally show ?thesis using k by simp
qed

lemma foldl_push_shift:
  assumes "length w \<le> N"
  shows "foldl (push_shift N) w obs = drop (length w + length obs - N) (w @ obs)"
proof (induction obs rule: rev_induct)
  case Nil
  from assms show ?case by simp
next
  case (snoc v obs)
  let ?xs = "w @ obs"
  have "foldl (push_shift N) w (obs @ [v]) = push_shift N (drop (length ?xs - N) ?xs) v"
    using snoc by simp
  also have "\<dots> = drop (Suc (length (drop (length ?xs - N) ?xs)) - N) (drop (length ?xs - N) ?xs @ [v])"
    by (rule push_shift_drop) simp
  also have "\<dots> = drop (Suc (length ?xs) - N) (?xs @ [v])"
    by (rule drop_window_step)
  finally show ?case by simp
qed

lemma push_shift_not_empty: "0 < N \<Longrightarrow> push_shift N w v \<noteq> []"
  by (cases w) (auto simp: push_shift_def Let_def)

subsection \<open>The counting object\<close>

lemma map_fst_bump:
  "map fst (bump c v) = (if v \<in> fst ` set c then map fst c else map fst c @ [v])"
proof (cases "map_of c v")
  case None
  then have "v \<notin> fst ` set c" by (simp add: map_of_eq_None_iff)
  with None show ?thesis by (simp add: bump_def)
next
  case (Some n)
  then have "v \<in> fst ` set c" by (metis map_of_eq_None_iff option.distinct(1))
  moreover have "map fst (map (\<lambda>(k, c). if k = v then (k, m) else (k, c)) c) = map fst c" for m :: nat
    by (induction c) auto
  ultimately show ?thesis using Some by (simp add: bump_def)
qed

lemma held_bump: "held (bump c v) k = (if k = v then held c k + 1 else held c k)"
proof (cases "map_of c v")
  case None
  then show ?thesis by (auto simp: bump_def held_def map_add_def split: option.splits)
next
  case (Some n)
  have other: "map_of (map (\<lambda>(k, c). if k = v then (k, m) else (k, c)) c) k = map_of c k"
    if "k \<noteq> v" for m :: nat
    using that by (induction c) auto
  have same: "map_of (map (\<lambda>(k, c). if k = v then (k, m) else (k, c)) c) v = Some m"
    if "map_of c v \<noteq> None" for m :: nat
    using that by (induction c) (auto split: if_splits)
  show ?thesis
  proof (cases "k = v")
    case True
    with Some same show ?thesis by (simp add: bump_def held_def)
  next
    case False
    with Some other show ?thesis by (simp add: bump_def held_def)
  qed
qed

lemma set_keys_bump: "fst ` set (bump c v) = insert v (fst ` set c)"
proof -
  have "fst ` set (bump c v) = set (map fst (bump c v))" by simp
  also have "\<dots> = insert v (fst ` set c)"
    unfolding map_fst_bump by (cases "v \<in> fst ` set c") (simp_all add: insert_absorb)
  finally show ?thesis .
qed

lemma distinct_keys_bump: "distinct (map fst c) \<Longrightarrow> distinct (map fst (bump c v))"
  unfolding map_fst_bump by (cases "v \<in> fst ` set c") simp_all

lemma set_keys_foldl_bump: "fst ` set (foldl bump c arr) = fst ` set c \<union> set arr"
  by (induction arr arbitrary: c) (simp_all add: set_keys_bump)

lemma distinct_keys_foldl_bump:
  "distinct (map fst c) \<Longrightarrow> distinct (map fst (foldl bump c arr))"
  by (induction arr arbitrary: c) (simp_all add: distinct_keys_bump)

lemma held_foldl_bump: "held (foldl bump c arr) k = held c k + count_list arr k"
  by (induction arr arbitrary: c) (simp_all add: held_bump)

lemma set_keys_tally: "fst ` set (tally arr) = set arr"
  by (simp add: tally_def set_keys_foldl_bump)

lemma distinct_keys_tally: "distinct (map fst (tally arr))"
  by (simp add: tally_def distinct_keys_foldl_bump)

lemma held_tally: "held (tally arr) k = count_list arr k"
proof -
  have "held [] k = 0" by (simp add: held_def)
  with held_foldl_bump [of "[]" arr k] show ?thesis by (simp add: tally_def)
qed

lemma map_of_tally:
  "map_of (tally arr) k = (if k \<in> set arr then Some (count_list arr k) else None)"
proof (cases "k \<in> set arr")
  case True
  then have "k \<in> fst ` set (tally arr)" by (simp add: set_keys_tally)
  then obtain n where n: "map_of (tally arr) k = Some n"
    by (metis map_of_eq_None_iff not_Some_eq)
  with held_tally [of arr k] have "n = count_list arr k" by (simp add: held_def)
  with n True show ?thesis by simp
next
  case False
  then have "k \<notin> fst ` set (tally arr)" by (simp add: set_keys_tally)
  then have "map_of (tally arr) k = None" by (simp add: map_of_eq_None_iff)
  with False show ?thesis by simp
qed

lemma set_Object_keys: "set (Object_keys obj) = fst ` set obj"
  by (auto simp: Object_keys_def Let_def)

lemma distinct_Object_keys: "distinct (map fst obj) \<Longrightarrow> distinct (Object_keys obj)"
  by (auto simp: Object_keys_def Let_def)

lemma prop_gt_tally:
  "a \<in> set arr \<Longrightarrow> b \<in> set arr \<Longrightarrow>
     prop_gt (tally arr) a b = (count_list arr a > count_list arr b)"
  by (simp add: prop_gt_def map_of_tally)

lemma Object_keys_tally_not_empty: "arr \<noteq> [] \<Longrightarrow> Object_keys (tally arr) \<noteq> []"
proof -
  assume "arr \<noteq> []"
  then have "set (Object_keys (tally arr)) \<noteq> {}"
    by (simp add: set_Object_keys set_keys_tally)
  then show ?thesis by auto
qed

subsection \<open>pushHistory\<close>

lemma reduce_keys_tally_returns:
  "arr \<noteq> [] \<Longrightarrow> \<exists>k. reduce_keys (tally arr) = Inr k"
  using Object_keys_tally_not_empty [of arr]
  by (cases "Object_keys (tally arr)") (simp_all add: reduce_keys_def)

lemma pushHistory_returns: "snd (pushHistory g cnt l) = None"
proof -
  have "push_shift HAND_HISTORY (handHistory g) l \<noteq> []"
    by (rule push_shift_not_empty) (simp add: HAND_HISTORY_def)
  then obtain k where "reduce_keys (tally (push_shift HAND_HISTORY (handHistory g) l)) = Inr k"
    using reduce_keys_tally_returns by blast
  then show ?thesis by (simp add: pushHistory_def Let_def)
qed

lemma pushHistory_fields:
  "countHistory (fst (pushHistory g cnt l)) = push_shift COUNT_HISTORY (countHistory g) cnt"
  "handHistory (fst (pushHistory g cnt l)) = push_shift HAND_HISTORY (handHistory g) l"
  "smoothCount (fst (pushHistory g cnt l)) =
     nat (Math_round (real (smoothCount g) * 0.6
                      + real (median (push_shift COUNT_HISTORY (countHistory g) cnt)) * 0.4))"
  by (simp_all add: pushHistory_def Let_def split: sum.split)


lemma observe_all_windows:
  "countHistory (observe_all g obs) = foldl (push_shift COUNT_HISTORY) (countHistory g) (map fst obs)
   \<and> handHistory (observe_all g obs) = foldl (push_shift HAND_HISTORY) (handHistory g) (map snd obs)"
  by (induction g obs rule: observe_all.induct) (simp_all add: pushHistory_fields)

lemma Math_round_of_nat: "Math_round (real n) = int n"
  by (simp add: Math_round_def)

lemma median_rounds_spec_median: "int (median w) = Math_round (spec_median w)"
proof -
  have "0 \<le> Math_round ((real a + real b) / 2)" for a b :: nat
    by (simp add: Math_round_def)
  then show ?thesis
    by (simp add: median_def spec_median_def Let_def Math_round_of_nat)
qed


lemma show_hands_later_globals:
  "0 < i \<Longrightarrow> show_hands cfg cw ch i hs g = (g, map (examine cfg cw ch) hs, None)"
proof (induction hs arbitrary: i)
  case Nil
  show ?case by simp
next
  case (Cons h hs)
  then have "show_hands cfg cw ch (i + 1) hs g = (g, map (examine cfg cw ch) hs, None)" by simp
  with Cons.prems show ?case by (cases "examine cfg cw ch h") simp_all
qed

lemma show_hands_first:
  "show_hands cfg cw ch 0 (h # hs) g =
     ((case examine cfg cw ch h of
         Skipped \<Rightarrow> g
       | Shown nl an l \<Rightarrow> fst (pushHistory g (count an) l)),
      map (examine cfg cw ch) (h # hs), None)"
proof (cases "examine cfg cw ch h")
  case Skipped
  then show ?thesis by (simp add: show_hands_later_globals)
next
  case (Shown nl an l)
  obtain g1 where "pushHistory g (count an) l = (g1, None)"
    using pushHistory_returns [of g "count an" l] by (cases "pushHistory g (count an) l") auto
  with Shown show ?thesis by (simp add: show_hands_later_globals)
qed


lemma show_hands_p1_later: "0 < i \<Longrightarrow> fst (show_hands_p1 mh i hs g) = g"
proof (induction hs arbitrary: i)
  case Nil
  show ?case by simp
next
  case (Cons h hs)
  then have "fst (show_hands_p1 mh (i + 1) hs g) = g" by simp
  with Cons.prems show ?case
    by (cases "show_hands_p1 mh (i + 1) hs g") (simp add: Let_def split: option.split)
qed

lemma show_hands_p1_first:
  "fst (show_hands_p1 mh 0 (h # hs) g) =
     g\<lparr>countHistory_mp := push_shift HISTORY_MAX_p1 (countHistory_mp g) (count (analyzeLandmarks h)),
       handedHistory := push_shift HISTORY_MAX_p1 (handedHistory g) (mirrorLabel True (label_at mh 0))\<rparr>"
proof -
  let ?g1 = "g\<lparr>countHistory_mp := push_shift HISTORY_MAX_p1 (countHistory_mp g) (count (analyzeLandmarks h)),
       handedHistory := push_shift HISTORY_MAX_p1 (handedHistory g) (mirrorLabel True (label_at mh 0))\<rparr>"
  have "fst (show_hands_p1 mh (0 + 1) hs ?g1) = ?g1" by (rule show_hands_p1_later) simp
  then show ?thesis
    by (cases "show_hands_p1 mh (0 + 1) hs ?g1") (simp add: Let_def split: option.split)
qed

lemma display_p1_histories:
  "countHistory_mp (fst (display_p1 g)) = countHistory_mp g"
  "handedHistory (fst (display_p1 g)) = handedHistory g"
  by (simp_all add: display_p1_def split: sum.split)

lemma onResults_p1_histories:
  "countHistory_mp (fst (onResults_p1 b (res\<lparr>multiHandLandmarks := Some (h # hs)\<rparr>) m))
     = push_shift HISTORY_MAX_p1 (countHistory_mp m) (count (analyzeLandmarks h))"
  "handedHistory (fst (onResults_p1 b (res\<lparr>multiHandLandmarks := Some (h # hs)\<rparr>) m))
     = push_shift HISTORY_MAX_p1 (handedHistory m) (mirrorLabel True (label_at (multiHandedness res) 0))"
proof -
  let ?n = "handsToShow b (length (h # hs))"
  obtain hs' where sel: "take ?n (h # hs) = h # hs'"
    by (cases b) (simp_all add: handsToShow_def)
  let ?r = "show_hands_p1 (multiHandedness res) 0 (h # hs') m"
  have f: "fst ?r = m\<lparr>countHistory_mp := push_shift HISTORY_MAX_p1 (countHistory_mp m) (count (analyzeLandmarks h)),
       handedHistory := push_shift HISTORY_MAX_p1 (handedHistory m) (mirrorLabel True (label_at (multiHandedness res) 0))\<rparr>"
    by (rule show_hands_p1_first)
  obtain g1 outs err where r: "?r = (g1, outs, err)" by (cases ?r) auto
  with f have g1: "g1 = m\<lparr>countHistory_mp := push_shift HISTORY_MAX_p1 (countHistory_mp m) (count (analyzeLandmarks h)),
       handedHistory := push_shift HISTORY_MAX_p1 (handedHistory m) (mirrorLabel True (label_at (multiHandedness res) 0))\<rparr>"
    by simp
  have "fst (onResults_p1 b (res\<lparr>multiHandLandmarks := Some (h # hs)\<rparr>) m)
          = (case err of Some e \<Rightarrow> g1 | None \<Rightarrow> fst (display_p1 g1))"
    using sel r by (cases err; cases "display_p1 g1") (simp_all add: onResults_p1_def del: take_Suc_Cons)
  then show
    "countHistory_mp (fst (onResults_p1 b (res\<lparr>multiHandLandmarks := Some (h # hs)\<rparr>) m))
       = push_shift HISTORY_MAX_p1 (countHistory_mp m) (count (analyzeLandmarks h))"
    "handedHistory (fst (onResults_p1 b (res\<lparr>multiHandLandmarks := Some (h # hs)\<rparr>) m))
       = push_shift HISTORY_MAX_p1 (handedHistory m) (mirrorLabel True (label_at (multiHandedness res) 0))"
    using g1 by (cases err; simp add: display_p1_histories)+
qed

lemma onResults_bkp_histories:
  "countHistory_mp (fst (onResults_bkp (res\<lparr>multiHandLandmarks := Some (h # hs)\<rparr>) m))
     = push_shift HISTORY_MAX_bkp (countHistory_mp m) (count (analyzeLandmarks h))"
  "handedHistory (fst (onResults_bkp (res\<lparr>multiHandLandmarks := Some (h # hs)\<rparr>) m))
     = push_shift HISTORY_MAX_bkp (handedHistory m) (mirrorLabel True (label_at (multiHandedness res) 0))"
  by (simp_all add: onResults_bkp_def display_bkp_def Let_def)

subsection \<open>Claims about the smoother\<close>

text \<open>
  C2. A history window that holds at most \<open>N\<close> entries still holds at most \<open>N\<close> after any
  sequence of pushes, and once at least \<open>N\<close> values have been pushed it is exactly the last
  \<open>N\<close> of them, in order. The count and handedness windows of part_000 are such windows
  with capacity 8, fed by \<open>pushHistory\<close>; those of script_bkp.js (capacity 6) and part_001
  (capacity 8) are pushed to once per frame that shows a hand.
\<close>
theorem history_window_capacity:
  "(length w \<le> N \<longrightarrow>
      length (foldl (push_shift N) w vs) \<le> N
      \<and> (N \<le> length vs \<longrightarrow> foldl (push_shift N) w vs = drop (length vs - N) vs))
   \<and> (length (countHistory g) \<le> COUNT_HISTORY \<and> length (handHistory g) \<le> HAND_HISTORY \<longrightarrow>
        length (countHistory (observe_all g obs)) \<le> COUNT_HISTORY
        \<and> length (handHistory (observe_all g obs)) \<le> HAND_HISTORY
        \<and> (COUNT_HISTORY \<le> length obs \<longrightarrow>
             countHistory (observe_all g obs) = drop (length obs - COUNT_HISTORY) (map fst obs))
        \<and> (HAND_HISTORY \<le> length obs \<longrightarrow>
             handHistory (observe_all g obs) = drop (length obs - HAND_HISTORY) (map snd obs)))
   \<and> countHistory_mp (fst (onResults_bkp (res\<lparr>multiHandLandmarks := Some (h # hs)\<rparr>) m))
       = push_shift HISTORY_MAX_bkp (countHistory_mp m) (count (analyzeLandmarks h))
   \<and> handedHistory (fst (onResults_bkp (res\<lparr>multiHandLandmarks := Some (h # hs)\<rparr>) m))
       = push_shift HISTORY_MAX_bkp (handedHistory m)
           (mirrorLabel True (label_at (multiHandedness res) 0))
   \<and> countHistory_mp (fst (onResults_p1 b (res\<lparr>multiHandLandmarks := Some (h # hs)\<rparr>) m))
       = push_shift HISTORY_MAX_p1 (countHistory_mp m) (count (analyzeLandmarks h))
   \<and> handedHistory (fst (onResults_p1 b (res\<lparr>multiHandLandmarks := Some (h # hs)\<rparr>) m))
       = push_shift HISTORY_MAX_p1 (handedHistory m)
           (mirrorLabel True (label_at (multiHandedness res) 0))"
proof -
  have bound: "length (foldl (push_shift K) u xs) \<le> K" if "length u \<le> K"
    for K and u xs :: "'b list"
    using that by (simp add: foldl_push_shift)
  have recent: "foldl (push_shift K) u xs = drop (length xs - K) xs"
    if "length u \<le> K" and "K \<le> length xs" for K and u xs :: "'b list"
    using that by (simp add: foldl_push_shift)
  have cw: "countHistory (observe_all g obs)
              = foldl (push_shift COUNT_HISTORY) (countHistory g) (map fst obs)"
    and hw: "handHistory (observe_all g obs)
              = foldl (push_shift HAND_HISTORY) (handHistory g) (map snd obs)"
    using observe_all_windows [of g obs] by simp_all
  have generic: "length w \<le> N \<longrightarrow>
      length (foldl (push_shift N) w vs) \<le> N
      \<and> (N \<le> length vs \<longrightarrow> foldl (push_shift N) w vs = drop (length vs - N) vs)"
    using bound [of w N vs] recent [of w N vs] by blast
  have part_000: "length (countHistory g) \<le> COUNT_HISTORY \<and> length (handHistory g) \<le> HAND_HISTORY \<longrightarrow>
        length (countHistory (observe_all g obs)) \<le> COUNT_HISTORY
        \<and> length (handHistory (observe_all g obs)) \<le> HAND_HISTORY
        \<and> (COUNT_HISTORY \<le> length obs \<longrightarrow>
             countHistory (observe_all g obs) = drop (length obs - COUNT_HISTORY) (map fst obs))
        \<and> (HAND_HISTORY \<le> length obs \<longrightarrow>
             handHistory (observe_all g obs) = drop (length obs - HAND_HISTORY) (map snd obs))"
    unfolding cw hw
    using bound [of "countHistory g" COUNT_HISTORY "map fst obs"]
      bound [of "handHistory g" HAND_HISTORY "map snd obs"]
      recent [of "countHistory g" COUNT_HISTORY "map fst obs"]
      recent [of "handHistory g" HAND_HISTORY "map snd obs"]
    by (simp add: drop_map)
  show ?thesis
    using generic part_000 by (simp add: onResults_bkp_histories onResults_p1_histories)
qed

theorem history_window_capacity_witness:
  "length ([] :: nat list) \<le> 3
   \<and> length (foldl (push_shift 3) [] [5, 4, 3, 2, 1 :: nat]) \<le> 3
   \<and> foldl (push_shift 3) [] [5, 4, 3, 2, 1 :: nat] = [3, 2, 1]
   \<and> length (countHistory initial_globals) \<le> COUNT_HISTORY
   \<and> length (handHistory initial_globals) \<le> HAND_HISTORY
   \<and> COUNT_HISTORY \<le> length [(1 :: nat, ''Left''), (2, ''Left''), (3, ''Left''), (4, ''Left''),
         (5, ''Left''), (0, ''Right''), (1, ''Right''), (2, ''Right''), (3, ''Right''),
         (4, ''Right'')]
   \<and> countHistory (observe_all initial_globals
        [(1, ''Left''), (2, ''Left''), (3, ''Left''), (4, ''Left''), (5, ''Left''),
         (0, ''Right''), (1, ''Right''), (2, ''Right''), (3, ''Right''), (4, ''Right'')])
       = [3, 4, 5, 0, 1, 2, 3, 4]
   \<and> handHistory (observe_all initial_globals
        [(1, ''Left''), (2, ''Left''), (3, ''Left''), (4, ''Left''), (5, ''Left''),
         (0, ''Right''), (1, ''Right''), (2, ''Right''), (3, ''Right''), (4, ''Right'')])
       = [''Left'', ''Left'', ''Left'', ''Right'', ''Right'', ''Right'', ''Right'', ''Right'']"
  using history_window_capacity [of "[] :: nat list" 3 "[5, 4, 3, 2, 1]" initial_globals
      "[(1, ''Left''), (2, ''Left''), (3, ''Left''), (4, ''Left''), (5, ''Left''),
        (0, ''Right''), (1, ''Right''), (2, ''Right''), (3, ''Right''), (4, ''Right'')]"]
  by (simp add: push_shift_def initial_globals_def COUNT_HISTORY_def HAND_HISTORY_def)

text \<open>
  C1, as stated, fails: after the observations 4, 0, 1 the displayed count is 2 and the
  window becomes \<open>[4, 0, 1, 0]\<close> on observing 0; its two middle values are 0 and 1. The
  script displays 2, the formula with the unrounded median 0.5 gives 1.
\<close>
theorem unrounded_median_counterexample:
  "int (smoothCount (fst (pushHistory
          (observe_all initial_globals [(4, ''Left''), (0, ''Left''), (1, ''Left'')]) 0 ''Left''))) = 2
   \<and> spec_blend (smoothCount (observe_all initial_globals [(4, ''Left''), (0, ''Left''), (1, ''Left'')]))
        (countHistory (fst (pushHistory
          (observe_all initial_globals [(4, ''Left''), (0, ''Left''), (1, ''Left'')]) 0 ''Left''))) = 1"
  by (simp add: pushHistory_fields push_shift_def initial_globals_def COUNT_HISTORY_def
      median_def spec_blend_def spec_median_def Math_round_def)

text \<open>
  C1, amended. \<open>pushHistory\<close> returns (for a label that is not the name of a member of
  \<open>Object.prototype\<close>), and the displayed count after it is
  \<open>round(0.6 \<times> previous + 0.4 \<times> m)\<close>, where \<open>m\<close> is the median of the window rounded to the
  nearest integer, a tie going up: the middle value for an odd length, the rounded average
  of the two middle values for an even one. For a window of odd length this is the
  formula with the unrounded median.
\<close>
theorem pushHistory_blends_rounded_median:
  "(plain_key l \<longrightarrow> snd (pushHistory g cnt l) = None)
   \<and> countHistory (fst (pushHistory g cnt l)) \<noteq> []
   \<and> int (smoothCount (fst (pushHistory g cnt l)))
       = Math_round (0.6 * real (smoothCount g)
           + 0.4 * real_of_int (Math_round (spec_median (countHistory (fst (pushHistory g cnt l))))))
   \<and> (odd (length (countHistory (fst (pushHistory g cnt l)))) \<longrightarrow>
        int (smoothCount (fst (pushHistory g cnt l)))
          = spec_blend (smoothCount g) (countHistory (fst (pushHistory g cnt l))))"
proof -
  let ?w = "push_shift COUNT_HISTORY (countHistory g) cnt"
  have w: "countHistory (fst (pushHistory g cnt l)) = ?w" by (simp add: pushHistory_fields)
  have ne: "?w \<noteq> []" by (rule push_shift_not_empty) (simp add: COUNT_HISTORY_def)
  have "0 \<le> Math_round (real (smoothCount g) * 0.6 + real (median ?w) * 0.4)"
    by (simp add: Math_round_def)
  then have sc: "int (smoothCount (fst (pushHistory g cnt l)))
                  = Math_round (0.6 * real (smoothCount g) + 0.4 * real (median ?w))"
    by (simp add: pushHistory_fields mult.commute)
  have med: "real (median ?w) = real_of_int (Math_round (spec_median ?w))"
    using median_rounds_spec_median [of ?w] by (metis of_int_of_nat_eq)
  have odd_case: "real (median ?w) = spec_median ?w" if "odd (length ?w)"
    using that by (simp add: median_def spec_median_def Let_def odd_iff_mod_2_eq_one)
  show ?thesis
    using pushHistory_returns [of g cnt l] ne sc med odd_case
    by (simp add: w spec_blend_def)
qed

theorem pushHistory_blends_rounded_median_witness:
  "plain_key ''Right'' \<and> snd (pushHistory initial_globals 5 ''Right'') = None
   \<and> odd (length (countHistory (fst (pushHistory initial_globals 5 ''Right''))))
   \<and> int (smoothCount (fst (pushHistory initial_globals 5 ''Right''))) = 2
   \<and> spec_blend (smoothCount initial_globals)
        (countHistory (fst (pushHistory initial_globals 5 ''Right''))) = 2"
  using pushHistory_blends_rounded_median [of "''Right''" initial_globals 5]
  by (simp add: pushHistory_fields push_shift_def initial_globals_def COUNT_HISTORY_def
      spec_blend_def spec_median_def Math_round_def plain_key_def Object_prototype_names_def)

text \<open>
  C4. Whatever the state, a frame without hands (an empty result, or in part_000 a
  detector that threw) leaves both windows empty and shows the count 0 and the em dash for
  the hand, in that same frame; part_000 also resets \<open>smoothCount\<close> and \<open>smoothHand\<close> to
  these values.
\<close>
theorem no_hands_resets:
  "smoother_reset (fst (processFrame cfg cw ch (Hands []) g))
   \<and> smoother_reset (fst (processFrame cfg cw ch Threw g))
   \<and> mp_reset (fst (onResults_bkp (res\<lparr>multiHandLandmarks := Some []\<rparr>) m))
   \<and> mp_reset (fst (onResults_bkp (res\<lparr>multiHandLandmarks := None\<rparr>) m))
   \<and> mp_reset (fst (onResults_p1 b (res\<lparr>multiHandLandmarks := Some []\<rparr>) m))
   \<and> mp_reset (fst (onResults_p1 b (res\<lparr>multiHandLandmarks := None\<rparr>) m))"
  by (simp add: processFrame_def onResults_bkp_def onResults_p1_def no_hands_mp_def
      smoother_reset_def mp_reset_def)

theorem no_hands_resets_witness:
  "countHistory (observe_all initial_globals [(5, ''Left''), (4, ''Left'')]) = [5, 4]
   \<and> smoother_reset (fst (processFrame \<lparr>showSkeleton = True, multiHand = False, mirror = True\<rparr>
        1280 720 (Hands []) (observe_all initial_globals [(5, ''Left''), (4, ''Left'')])))
   \<and> mp_reset (fst (onResults_bkp \<lparr>multiHandLandmarks = None, multiHandedness = None\<rparr>
        \<lparr>statusEl = ''Hand detected'', handedEl = ''Hand: Left'', countEl = ''Fingers: 5'',
         countHistory_mp = [5, 5, 4], handedHistory = [''Left'', ''Left'', ''Left'']\<rparr>))"
  using no_hands_resets [of "\<lparr>showSkeleton = True, multiHand = False, mirror = True\<rparr>" 1280 720
      "observe_all initial_globals [(5, ''Left''), (4, ''Left'')]"
      "\<lparr>multiHandLandmarks = None, multiHandedness = None\<rparr>"
      "\<lparr>statusEl = ''Hand detected'', handedEl = ''Hand: Left'', countEl = ''Fingers: 5'',
         countHistory_mp = [5, 5, 4], handedHistory = [''Left'', ''Left'', ''Left'']\<rparr>"]
  by (simp add: pushHistory_fields push_shift_def initial_globals_def COUNT_HISTORY_def)

lemma shownHands_Cons: "\<exists>hs'. shownHands cfg (h # hs) = h # hs'"
  by (cases "multiHand cfg") (simp_all add: shownHands_def maxHands_def)

lemma processFrame_hands:
  "processFrame cfg cw ch (Hands (h # hs)) g =
     (let g1 = (case examine cfg cw ch h of
                  Skipped \<Rightarrow> g
                | Shown nl an lab \<Rightarrow> fst (pushHistory g (count an) lab))
      in (g1\<lparr>countEl := ''Fingers: '' @ js_toString (smoothCount g1),
             handedEl := ''Hand: '' @ smoothHand g1,
             statusEl := ''Detected '' @ js_toString (length (h # hs)) @ '' hand(s)''\<rparr>,
          map (examine cfg cw ch) (shownHands cfg (h # hs)), None))"
proof -
  obtain hs' where sel: "shownHands cfg (h # hs) = h # hs'"
    using shownHands_Cons by blast
  show ?thesis
    by (simp add: processFrame_def sel show_hands_first Let_def del: show_hands.simps)
qed

text \<open>
  C9. With mirror mode on, the label is \<open>Right\<close> for a raw \<open>Left\<close> and \<open>Left\<close> for a raw
  \<open>Right\<close>; with mirror mode off it is the raw label; the correction applied twice gives
  the label back. The label of a shown hand, and the one pushed into the handedness window
  for the first hand, is the corrected raw label.
\<close>
theorem mirror_swaps_and_round_trips:
  "mirrorLabel True ''Left'' = ''Right''
   \<and> mirrorLabel True ''Right'' = ''Left''
   \<and> mirrorLabel False l = l
   \<and> mirrorLabel v (mirrorLabel v l) = l
   \<and> (examine cfg cw ch h = Skipped
       \<or> (\<exists>nl an. examine cfg cw ch h = Shown nl an (mirrorLabel (mirror cfg) (rawLabel h))))
   \<and> handHistory (fst (processFrame cfg cw ch (Hands (h # hs)) g))
       = (case examine cfg cw ch h of
            Skipped \<Rightarrow> handHistory g
          | Shown nl an lab \<Rightarrow>
              push_shift HAND_HISTORY (handHistory g) (mirrorLabel (mirror cfg) (rawLabel h)))"
proof -
  have ex: "examine cfg cw ch h = Skipped
            \<or> (\<exists>nl an. examine cfg cw ch h = Shown nl an (mirrorLabel (mirror cfg) (rawLabel h)))"
    by (simp add: examine_def split: option.split)
  have "handHistory (fst (processFrame cfg cw ch (Hands (h # hs)) g))
          = handHistory (case examine cfg cw ch h of
                           Skipped \<Rightarrow> g
                         | Shown nl an lab \<Rightarrow> fst (pushHistory g (count an) lab))"
    by (simp add: processFrame_hands Let_def split: hand_outcome.split)
  also have "\<dots> = (case examine cfg cw ch h of
            Skipped \<Rightarrow> handHistory g
          | Shown nl an lab \<Rightarrow>
              push_shift HAND_HISTORY (handHistory g) (mirrorLabel (mirror cfg) (rawLabel h)))"
    using ex by (auto simp: pushHistory_fields)
  finally show ?thesis using ex by (simp add: mirrorLabel_def)
qed



subsection \<open>Claims about the geometry and the classifier\<close>



lemma foldl_count_true:
  "foldl (\<lambda>s v. s + (if v then 1 else 0)) n bs = n + length (filter (\<lambda>v. v) bs)"
  by (induction bs arbitrary: n) simp_all

lemma analyzeLandmarks_count:
  "count (analyzeLandmarks lm) = length (filter (\<lambda>v. v) (extended (analyzeLandmarks lm)))"
  "length (extended (analyzeLandmarks lm)) = 5"
  "count (analyzeLandmarks lm) \<le> 5"
proof -
  show c: "count (analyzeLandmarks lm) = length (filter (\<lambda>v. v) (extended (analyzeLandmarks lm)))"
    by (simp only: analyzeLandmarks_def Let_def analysis.simps foldl_count_true)
  show l: "length (extended (analyzeLandmarks lm)) = 5"
    by (simp add: analyzeLandmarks_def Let_def fingers_def)
  have "length (filter (\<lambda>v. v) (extended (analyzeLandmarks lm))) \<le> length (extended (analyzeLandmarks lm))"
    by (rule length_filter_le)
  with c l show "count (analyzeLandmarks lm) \<le> 5" by simp
qed

text \<open>
  C3. For a pose of 21 landmarks the thumb is extended exactly when the angle at
  landmarks 2, 3, 4 exceeds 150 degrees, each other finger exactly when the angle at its
  triple exceeds 160 degrees, and the count is the number of extended fingers, at most 5.
\<close>
theorem analyzeLandmarks_thresholds:
  assumes "length lm = 21"
  shows "extended (analyzeLandmarks lm) =
           [angleBetween (lm ! 2) (lm ! 3) (lm ! 4) > 150,
            angleBetween (lm ! 5) (lm ! 6) (lm ! 8) > 160,
            angleBetween (lm ! 9) (lm ! 10) (lm ! 12) > 160,
            angleBetween (lm ! 13) (lm ! 14) (lm ! 16) > 160,
            angleBetween (lm ! 17) (lm ! 18) (lm ! 20) > 160]
         \<and> count (analyzeLandmarks lm) = length (filter (\<lambda>v. v) (extended (analyzeLandmarks lm)))
         \<and> count (analyzeLandmarks lm) \<le> 5"
proof -
  have "extended (analyzeLandmarks lm) =
           [angleBetween (lm ! 2) (lm ! 3) (lm ! 4) > 150,
            angleBetween (lm ! 5) (lm ! 6) (lm ! 8) > 160,
            angleBetween (lm ! 9) (lm ! 10) (lm ! 12) > 160,
            angleBetween (lm ! 13) (lm ! 14) (lm ! 16) > 160,
            angleBetween (lm ! 17) (lm ! 18) (lm ! 20) > 160]"
    using assms
    by (simp add: analyzeLandmarks_def Let_def fingers_def joint_angle_def straighter_than_def)
  then show ?thesis using analyzeLandmarks_count(1,3) [of lm] by simp
qed

theorem analyzeLandmarks_thresholds_witness:
  "length [point2 0 0, point2 0 0, point2 0 0, point2 1 0, point2 1 1,
           point2 0 0, point2 1 0, point2 0 0, point2 2 0,
           point2 0 0, point2 1 0, point2 0 0, point2 2 0,
           point2 0 0, point2 1 0, point2 0 0, point2 2 0,
           point2 0 0, point2 0 0, point2 0 0, point2 0 0] = 21
   \<and> extended (analyzeLandmarks
         [point2 0 0, point2 0 0, point2 0 0, point2 1 0, point2 1 1,
          point2 0 0, point2 1 0, point2 0 0, point2 2 0,
          point2 0 0, point2 1 0, point2 0 0, point2 2 0,
          point2 0 0, point2 1 0, point2 0 0, point2 2 0,
          point2 0 0, point2 0 0, point2 0 0, point2 0 0])
       = [False, True, True, True, False]
   \<and> count (analyzeLandmarks
         [point2 0 0, point2 0 0, point2 0 0, point2 1 0, point2 1 1,
          point2 0 0, point2 1 0, point2 0 0, point2 2 0,
          point2 0 0, point2 1 0, point2 0 0, point2 2 0,
          point2 0 0, point2 1 0, point2 0 0, point2 2 0,
          point2 0 0, point2 0 0, point2 0 0, point2 0 0]) = 3"
proof -
  have a90: "angleBetween (point2 0 0) (point2 1 0) (point2 1 1) = 90"
    by (simp add: angleBetween_def point2_def z_or_0_def Math_hypot_def)
  have a180: "angleBetween (point2 0 0) (point2 1 0) (point2 2 0) = 180"
    by (simp add: angleBetween_def point2_def z_or_0_def Math_hypot_def)
  have a0: "angleBetween (point2 0 0) (point2 0 0) (point2 0 0) = 0"
    by (simp add: angleBetween_def point2_def z_or_0_def Math_hypot_def)
  show ?thesis
    using analyzeLandmarks_thresholds
      [of "[point2 0 0, point2 0 0, point2 0 0, point2 1 0, point2 1 1,
            point2 0 0, point2 1 0, point2 0 0, point2 2 0,
            point2 0 0, point2 1 0, point2 0 0, point2 2 0,
            point2 0 0, point2 1 0, point2 0 0, point2 2 0,
            point2 0 0, point2 0 0, point2 0 0, point2 0 0]"]
    by (simp add: a90 a180 a0)
qed

lemma length_normLandmarks_of:
  "normLandmarks_of cw ch (Some lms) = Some nl \<Longrightarrow> length nl = length lms"
  by (cases lms) (auto simp: normLandmarks_of_def split: if_splits)

lemma normLandmarks_of_Some: "\<exists>nl. normLandmarks_of cw ch (Some lms) = Some nl"
  by (cases lms) (simp_all add: normLandmarks_of_def)

lemma examine_Skipped_iff: "examine cfg cw ch h = Skipped \<longleftrightarrow> \<not> has_21_keypoints h"
proof (cases "has_21_keypoints h")
  case False
  then show ?thesis by (simp add: examine_def landmarks_of_def normLandmarks_of_def)
next
  case True
  then obtain kps where k: "hand_keypoints h = Some kps" and len: "length kps = 21"
    by (auto simp: has_21_keypoints_def split: option.splits)
  let ?lms = "map (\<lambda>k. \<lparr>px = px k, py = py k, pz = Some (z_or_0 k)\<rparr>) kps"
  have lm: "landmarks_of h = Some ?lms" using True k by (simp add: landmarks_of_def)
  obtain nl where nl: "normLandmarks_of cw ch (Some ?lms) = Some nl"
    using normLandmarks_of_Some by blast
  then have "length nl = 21" using length_normLandmarks_of [OF nl] len by simp
  with nl lm True show ?thesis by (simp add: examine_def)
qed

theorem mirror_swaps_and_round_trips_witness:
  "rawLabel \<lparr>keypoints3D = None, keypoints = Some (replicate 21 (point2 0 0)),
             handedness = Some [Some ''Left'']\<rparr> = ''Left''
   \<and> examine \<lparr>showSkeleton = True, multiHand = False, mirror = True\<rparr> 1280 720
        \<lparr>keypoints3D = None, keypoints = Some (replicate 21 (point2 0 0)),
         handedness = Some [Some ''Left'']\<rparr> \<noteq> Skipped
   \<and> handHistory (fst (processFrame \<lparr>showSkeleton = True, multiHand = False, mirror = True\<rparr>
        1280 720
        (Hands [\<lparr>keypoints3D = None, keypoints = Some (replicate 21 (point2 0 0)),
                 handedness = Some [Some ''Left'']\<rparr>])
        initial_globals)) = [''Right'']
   \<and> mirrorLabel True (mirrorLabel True ''Right'') = ''Right''"
proof -
  have "examine \<lparr>showSkeleton = True, multiHand = False, mirror = True\<rparr> 1280 720
        \<lparr>keypoints3D = None, keypoints = Some (replicate 21 (point2 0 0)),
         handedness = Some [Some ''Left'']\<rparr> \<noteq> Skipped"
    by (simp add: examine_Skipped_iff has_21_keypoints_def hand_keypoints_def)
  then show ?thesis
    using mirror_swaps_and_round_trips
      [of "''Right''" True "\<lparr>showSkeleton = True, multiHand = False, mirror = True\<rparr>" 1280 720
        "\<lparr>keypoints3D = None, keypoints = Some (replicate 21 (point2 0 0)),
          handedness = Some [Some ''Left'']\<rparr>" "[]" initial_globals]
    by (auto simp: rawLabel_def or_Unknown_def push_shift_def initial_globals_def HAND_HISTORY_def)
qed

subsection \<open>Decimal keys\<close>

lemma of_char_digit_char: "d < 10 \<Longrightarrow> (of_char (digit_char d) :: nat) = 48 + d"
  by (simp add: digit_char_def)

lemma is_digit_digit_char: "d < 10 \<Longrightarrow> is_digit (digit_char d)"
  by (simp add: is_digit_def of_char_digit_char)

lemma dec_value_snoc: "dec_value (s @ [c]) = 10 * dec_value s + ((of_char c :: nat) - 48)"
  by (simp add: dec_value_def)

lemma js_toString_not_empty: "js_toString n \<noteq> []"
  by (subst js_toString.simps) simp

lemma digits_js_toString: "list_all is_digit (js_toString n)"
proof (induction n rule: js_toString.induct)
  case (1 n)
  show ?case
  proof (cases "n < 10")
    case True
    then show ?thesis by (subst js_toString.simps) (simp add: is_digit_digit_char)
  next
    case False
    with 1 have "list_all is_digit (js_toString (n div 10))" by simp
    with False show ?thesis by (subst js_toString.simps) (simp add: is_digit_digit_char)
  qed
qed

lemma dec_value_js_toString: "dec_value (js_toString n) = n"
proof (induction n rule: js_toString.induct)
  case (1 n)
  show ?case
  proof (cases "n < 10")
    case True
    then show ?thesis
      by (subst js_toString.simps) (simp add: dec_value_def of_char_digit_char)
  next
    case False
    with 1 have "dec_value (js_toString (n div 10)) = n div 10" by simp
    with False show ?thesis
      by (subst js_toString.simps) (simp add: dec_value_snoc of_char_digit_char)
  qed
qed

lemma inj_js_toString: "js_toString m = js_toString n \<longleftrightarrow> m = n"
  by (metis dec_value_js_toString)

lemma js_Number_js_toString: "js_Number (js_toString n) = Some n"
  by (simp add: js_Number_def digits_js_toString dec_value_js_toString)

lemma hd_js_toString: "0 < n \<Longrightarrow> hd (js_toString n) \<noteq> CHR ''0''"
proof (induction n rule: js_toString.induct)
  case (1 n)
  show ?case
  proof (cases "n < 10")
    case True
    have "(of_char (digit_char n) :: nat) \<noteq> of_char CHR ''0''"
      using True 1(2) by (simp add: of_char_digit_char)
    then have "digit_char n \<noteq> CHR ''0''" by auto
    with True show ?thesis by (subst js_toString.simps) simp
  next
    case False
    with 1 have "hd (js_toString (n div 10)) \<noteq> CHR ''0''" by simp
    with False show ?thesis
      by (subst js_toString.simps) (simp add: js_toString_not_empty)
  qed
qed

lemma digit_char_values:
  "digit_char 0 = CHR ''0''" "digit_char 1 = CHR ''1''" "digit_char 2 = CHR ''2''"
  "digit_char 3 = CHR ''3''" "digit_char 4 = CHR ''4''" "digit_char 5 = CHR ''5''"
  "digit_char 6 = CHR ''6''" "digit_char 7 = CHR ''7''" "digit_char 8 = CHR ''8''"
  "digit_char 9 = CHR ''9''"
proof -
  have eq: "digit_char d = c" if "d < 10" and "(of_char c :: nat) = 48 + d" for d c
  proof -
    have "(of_char (digit_char d) :: nat) = of_char c"
      using that by (simp add: of_char_digit_char)
    then show ?thesis by (simp only: of_char_eq_iff)
  qed
  show "digit_char 0 = CHR ''0''" "digit_char 1 = CHR ''1''" "digit_char 2 = CHR ''2''"
    "digit_char 3 = CHR ''3''" "digit_char 4 = CHR ''4''" "digit_char 5 = CHR ''5''"
    "digit_char 6 = CHR ''6''" "digit_char 7 = CHR ''7''" "digit_char 8 = CHR ''8''"
    "digit_char 9 = CHR ''9''"
    by (rule eq; simp)+
qed

lemma js_toString_digit: "n < 10 \<Longrightarrow> js_toString n = [digit_char n]"
  by (subst js_toString.simps) simp

lemma js_toString_0: "js_toString 0 = ''0''"
  by (simp add: js_toString_digit digit_char_values)

lemma is_array_index_js_toString: "is_array_index (js_toString n) \<longleftrightarrow> n < 4294967295"
proof (cases "js_toString n")
  case Nil
  then show ?thesis by (simp add: js_toString_not_empty)
next
  case (Cons c cs)
  have zero: "cs = []" if "c = CHR ''0''"
  proof (cases "n = 0")
    case True
    with Cons show ?thesis by (simp add: js_toString_0)
  next
    case False
    with hd_js_toString [of n] Cons that show ?thesis by simp
  qed
  have "list_all is_digit (c # cs)" and "dec_value (c # cs) = n"
    using digits_js_toString [of n] dec_value_js_toString [of n] Cons by simp_all
  then show ?thesis using Cons zero by (simp add: is_array_index_def)
qed

subsection \<open>Picking a key with the greatest count\<close>

lemma find_append:
  "find P (xs @ ys) = (case find P xs of None \<Rightarrow> find P ys | Some x \<Rightarrow> Some x)"
  by (induction xs) simp_all

lemma find_same:
  "(\<And>x. x \<in> set xs \<Longrightarrow> P x = Q x) \<Longrightarrow> find P xs = find Q xs"
  by (induction xs) simp_all

lemma find_in_sorted_wrt:
  "sorted_wrt R xs \<Longrightarrow> find P xs = Some r \<Longrightarrow> k \<in> set xs \<Longrightarrow> P k \<Longrightarrow> r = k \<or> R r k"
  by (induction xs) (auto split: if_splits)

lemma first_max_fold:
  fixes f :: "'a \<Rightarrow> nat"
  assumes "\<forall>a\<in>set xs. \<forall>b\<in>set xs. gt a b = (f b < f a)" and "xs \<noteq> []"
  shows "\<exists>b. foldl (\<lambda>best k. case best of None \<Rightarrow> Some k
                            | Some b \<Rightarrow> if gt k b then Some k else best) None xs = Some b
             \<and> b \<in> set xs \<and> (\<forall>x\<in>set xs. f x \<le> f b) \<and> find (\<lambda>k. f b \<le> f k) xs = Some b"
  using assms
proof (induction xs rule: rev_induct)
  case Nil
  then show ?case by simp
next
  case (snoc k xs)
  let ?F = "\<lambda>best k. case best of None \<Rightarrow> Some k | Some b \<Rightarrow> if gt k b then Some k else best"
  show ?case
  proof (cases "xs = []")
    case True
    then show ?thesis by simp
  next
    case False
    have "\<forall>a\<in>set xs. \<forall>b\<in>set xs. gt a b = (f b < f a)"
      using snoc.prems(1) by simp
    with snoc.IH False obtain b where
      b: "foldl ?F None xs = Some b" "b \<in> set xs" "\<forall>x\<in>set xs. f x \<le> f b"
         "find (\<lambda>k. f b \<le> f k) xs = Some b"
      by blast
    have gt: "gt k b = (f b < f k)" using snoc.prems(1) b(2) by simp
    show ?thesis
    proof (cases "f b < f k")
      case True
      have "find (\<lambda>x. f k \<le> f x) xs = None"
        using b(3) True by (fastforce simp: find_None_iff)
      then have "find (\<lambda>x. f k \<le> f x) (xs @ [k]) = Some k" by (simp add: find_append)
      moreover have "\<forall>x\<in>set (xs @ [k]). f x \<le> f k" using b(3) True by fastforce
      ultimately show ?thesis using b(1) gt True by simp
    next
      case False
      have "find (\<lambda>x. f b \<le> f x) (xs @ [k]) = Some b" using b(4) by (simp add: find_append)
      moreover have "\<forall>x\<in>set (xs @ [k]). f x \<le> f b" using b(3) False by auto
      ultimately show ?thesis using b(1,2) gt False by simp
    qed
  qed
qed

lemma last_max_fold:
  fixes f :: "'a \<Rightarrow> nat"
  assumes "\<forall>a\<in>set (k0 # ks). \<forall>b\<in>set (k0 # ks). gt a b = (f b < f a)"
  shows "foldl (\<lambda>a b. if gt a b then a else b) k0 ks \<in> set (k0 # ks)
         \<and> (\<forall>x\<in>set (k0 # ks). f x \<le> f (foldl (\<lambda>a b. if gt a b then a else b) k0 ks))
         \<and> find (\<lambda>k. f (foldl (\<lambda>a b. if gt a b then a else b) k0 ks) \<le> f k) (rev (k0 # ks))
             = Some (foldl (\<lambda>a b. if gt a b then a else b) k0 ks)"
  using assms
proof (induction ks rule: rev_induct)
  case Nil
  then show ?case by simp
next
  case (snoc k ks)
  let ?r = "foldl (\<lambda>a b. if gt a b then a else b) k0 ks"
  have "\<forall>a\<in>set (k0 # ks). \<forall>b\<in>set (k0 # ks). gt a b = (f b < f a)"
    using snoc.prems by simp
  with snoc.IH have r: "?r \<in> set (k0 # ks)" "\<forall>x\<in>set (k0 # ks). f x \<le> f ?r"
    "find (\<lambda>k. f ?r \<le> f k) (rev (k0 # ks)) = Some ?r"
    by blast+
  have gt: "gt ?r k = (f k < f ?r)" using snoc.prems r(1) by auto
  show ?case
  proof (cases "f k < f ?r")
    case True
    have "find (\<lambda>x. f ?r \<le> f x) (rev (k0 # ks @ [k])) = Some ?r"
      using r(3) True by simp
    moreover have "\<forall>x\<in>set (k0 # ks @ [k]). f x \<le> f ?r" using r(2) True by auto
    moreover have "foldl (\<lambda>a b. if gt a b then a else b) k0 (ks @ [k]) = ?r"
      using gt True by simp
    moreover have "?r \<in> set (k0 # ks @ [k])" using r(1) by auto
    ultimately show ?thesis by (simp only:)
  next
    case False
    have "\<forall>x\<in>set (k0 # ks @ [k]). f x \<le> f k" using r(2) False by fastforce
    moreover have "foldl (\<lambda>a b. if gt a b then a else b) k0 (ks @ [k]) = k"
      using gt False by simp
    ultimately show ?thesis by simp
  qed
qed

lemma set_keys_of_tally: "set (Object_keys (tally arr)) = set arr"
  by (simp add: set_Object_keys set_keys_tally)

lemma prop_gt_on_keys:
  "\<forall>a\<in>set (Object_keys (tally arr)). \<forall>b\<in>set (Object_keys (tally arr)).
     prop_gt (tally arr) a b = (count_list arr b < count_list arr a)"
  by (simp add: set_keys_of_tally prop_gt_tally)

lemma most_frequent_iff:
  assumes "b \<in> set arr" and "\<forall>x\<in>set arr. count_list arr x \<le> count_list arr b"
    and "k \<in> set arr"
  shows "most_frequent arr k \<longleftrightarrow> count_list arr b \<le> count_list arr k"
  using assms by (auto simp: most_frequent_def list_all_iff intro: order_trans)

lemma mode_bkp_first:
  assumes "arr \<noteq> []"
  shows "\<exists>b. mode_bkp arr = Some b \<and> most_frequent arr b
             \<and> find (most_frequent arr) (Object_keys (tally arr)) = Some b"
proof -
  let ?keys = "Object_keys (tally arr)"
  have ne: "?keys \<noteq> []" using assms by (rule Object_keys_tally_not_empty)
  from first_max_fold [OF prop_gt_on_keys ne]
  obtain b where b: "mode_bkp arr = Some b" "b \<in> set ?keys"
      "\<forall>x\<in>set ?keys. count_list arr x \<le> count_list arr b"
      "find (\<lambda>k. count_list arr b \<le> count_list arr k) ?keys = Some b"
    unfolding mode_bkp_def Let_def by blast
  have mem: "b \<in> set arr" and mx: "\<forall>x\<in>set arr. count_list arr x \<le> count_list arr b"
    using b(2,3) by (simp_all add: set_keys_of_tally)
  have "find (most_frequent arr) ?keys = find (\<lambda>k. count_list arr b \<le> count_list arr k) ?keys"
    by (rule find_same) (simp add: set_keys_of_tally most_frequent_iff [OF mem mx])
  moreover have "most_frequent arr b"
    using mem mx by (simp add: most_frequent_def list_all_iff)
  ultimately show ?thesis using b(1,4) by simp
qed

lemma mode_bkp_is_spec_mode: "mode_bkp arr = spec_mode arr"
proof (cases "arr = []")
  case True
  then show ?thesis
    by (simp add: mode_bkp_def spec_mode_def tally_def Object_keys_def)
next
  case False
  then show ?thesis using mode_bkp_first [of arr] by (auto simp: spec_mode_def)
qed

lemma mode_p1_last:
  assumes "arr \<noteq> []"
  shows "\<exists>r. mode_p1 arr = Inr r \<and> most_frequent arr r
             \<and> find (most_frequent arr) (rev (Object_keys (tally arr))) = Some r"
proof -
  let ?keys = "Object_keys (tally arr)"
  have ne: "?keys \<noteq> []" using assms by (rule Object_keys_tally_not_empty)
  then obtain k0 ks where keys: "?keys = k0 # ks" by (cases ?keys) auto
  let ?r = "foldl (\<lambda>a b. if prop_gt (tally arr) a b then a else b) k0 ks"
  have "\<forall>a\<in>set (k0 # ks). \<forall>b\<in>set (k0 # ks).
          prop_gt (tally arr) a b = (count_list arr b < count_list arr a)"
    using prop_gt_on_keys [of arr] keys by simp
  from last_max_fold [OF this]
  have r: "?r \<in> set ?keys" "\<forall>x\<in>set ?keys. count_list arr x \<le> count_list arr ?r"
    "find (\<lambda>k. count_list arr ?r \<le> count_list arr k) (rev ?keys) = Some ?r"
    unfolding keys by blast+
  have mem: "?r \<in> set arr" and mx: "\<forall>x\<in>set arr. count_list arr x \<le> count_list arr ?r"
    using r(1,2) by (simp_all add: set_keys_of_tally)
  have "find (most_frequent arr) (rev ?keys)
          = find (\<lambda>k. count_list arr ?r \<le> count_list arr k) (rev ?keys)"
    by (rule find_same) (simp add: set_keys_of_tally most_frequent_iff [OF mem mx])
  moreover have "most_frequent arr ?r"
    using mem mx by (simp add: most_frequent_def list_all_iff)
  moreover have "mode_p1 arr = Inr ?r" by (simp add: mode_p1_def reduce_keys_def keys)
  ultimately show ?thesis using r(3) by simp
qed

subsection \<open>Windows of counts\<close>

lemma count_list_js_toString:
  "count_list (map js_toString w) (js_toString v) = count_list w v"
  by (induction w) (simp_all add: inj_js_toString)

lemma most_frequent_js_toString:
  "most_frequent (map js_toString w) (js_toString v) \<longleftrightarrow> most_frequent w v"
  by (auto simp: most_frequent_def list_all_iff count_list_js_toString inj_js_toString)

lemma count_keys_sorted:
  assumes "\<forall>v\<in>set w. v < 4294967295"
  shows "sorted (map dec_value (Object_keys (tally (map js_toString w))))"
proof -
  let ?ks = "map fst (tally (map js_toString w))"
  have "set ?ks = js_toString ` set w" using set_keys_tally [of "map js_toString w"] by simp
  then have idx: "\<forall>k\<in>set ?ks. is_array_index k"
    using assms by (auto simp: is_array_index_js_toString)
  then have "filter is_array_index ?ks = ?ks" and "filter (\<lambda>k. \<not> is_array_index k) ?ks = []"
    by (simp_all add: filter_id_conv filter_empty_conv)
  then have "Object_keys (tally (map js_toString w)) = sort_key dec_value ?ks"
    by (simp add: Object_keys_def Let_def)
  then show ?thesis by (simp add: sorted_sort_key)
qed

lemma displayedCount_bkp_smallest:
  assumes "w \<noteq> []" and "\<forall>v\<in>set w. v < 4294967295"
  shows "\<exists>m. displayedCount_bkp w = Some m \<and> most_frequent w m
             \<and> (\<forall>v. most_frequent w v \<longrightarrow> m \<le> v)"
proof -
  let ?arr = "map js_toString w" and ?keys = "Object_keys (tally (map js_toString w))"
  from assms(1) have "?arr \<noteq> []" by simp
  from mode_bkp_first [OF this] obtain b where
    b: "mode_bkp ?arr = Some b" "most_frequent ?arr b" "find (most_frequent ?arr) ?keys = Some b"
    by blast
  from b(2) obtain m where m: "b = js_toString m" by (auto simp: most_frequent_def)
  have srt: "sorted_wrt (\<lambda>a b. dec_value a \<le> dec_value b) ?keys"
    using count_keys_sorted [OF assms(2)] by (simp add: sorted_map)
  have "m \<le> v" if "most_frequent w v" for v
  proof -
    from that have "js_toString v \<in> set ?keys"
      by (simp add: set_keys_of_tally most_frequent_def)
    moreover from that have "most_frequent ?arr (js_toString v)"
      by (simp add: most_frequent_js_toString)
    ultimately have "b = js_toString v \<or> dec_value b \<le> dec_value (js_toString v)"
      using find_in_sorted_wrt [OF srt b(3)] by blast
    then show ?thesis using m by (auto simp: dec_value_js_toString inj_js_toString)
  qed
  moreover have "most_frequent w m" using b(2) m by (simp add: most_frequent_js_toString)
  moreover have "displayedCount_bkp w = Some m"
    using b(1) m by (simp add: displayedCount_bkp_def js_Number_js_toString)
  ultimately show ?thesis by blast
qed

lemma displayedCount_p1_largest:
  assumes "w \<noteq> []" and "\<forall>v\<in>set w. v < 4294967295"
  shows "\<exists>m. displayedCount_p1 w = Inr (Some m) \<and> most_frequent w m
             \<and> (\<forall>v. most_frequent w v \<longrightarrow> v \<le> m)"
proof -
  let ?arr = "map js_toString w" and ?keys = "Object_keys (tally (map js_toString w))"
  from assms(1) have "?arr \<noteq> []" by simp
  from mode_p1_last [OF this] obtain b where
    b: "mode_p1 ?arr = Inr b" "most_frequent ?arr b"
       "find (most_frequent ?arr) (rev ?keys) = Some b"
    by blast
  from b(2) obtain m where m: "b = js_toString m" by (auto simp: most_frequent_def)
  have srt: "sorted_wrt (\<lambda>a b. dec_value b \<le> dec_value a) (rev ?keys)"
    using count_keys_sorted [OF assms(2)] by (simp add: sorted_map sorted_wrt_rev)
  have "v \<le> m" if "most_frequent w v" for v
  proof -
    from that have "js_toString v \<in> set (rev ?keys)"
      by (simp add: set_keys_of_tally most_frequent_def)
    moreover from that have "most_frequent ?arr (js_toString v)"
      by (simp add: most_frequent_js_toString)
    ultimately have "b = js_toString v \<or> dec_value (js_toString v) \<le> dec_value b"
      using find_in_sorted_wrt [OF srt b(3)] by blast
    then show ?thesis using m by (auto simp: dec_value_js_toString inj_js_toString)
  qed
  moreover have "most_frequent w m" using b(2) m by (simp add: most_frequent_js_toString)
  moreover have "displayedCount_p1 w = Inr (Some m)"
    using b(1) m by (simp add: displayedCount_p1_def js_Number_js_toString)
  ultimately show ?thesis by blast
qed

lemma finite_most_frequent: "finite {v. most_frequent w v}"
  by (rule finite_subset [of _ "set w"]) (auto simp: most_frequent_def)

lemmas key_evaluation =
  displayedCount_bkp_def displayedCount_p1_def mode_bkp_def mode_p1_def reduce_keys_def
  tally_def bump_def held_def Object_keys_def prop_gt_def js_toString_digit digit_char_values
  is_array_index_def is_digit_def dec_value_def js_Number_def

subsection \<open>Claims about the mode\<close>

text \<open>
  C5, as stated, fails for part_001: in the window \<open>[4, 5]\<close> both values occur once and
  the key \<open>4\<close> comes first, in the window and in the order of \<open>Object.keys\<close>, but the
  \<open>reduce\<close> of part_001 keeps the later key on a tie and the page displays 5.
\<close>
theorem mode_first_key_counterexample:
  "mode_p1 (map js_toString [4, 5]) = Inr ''5''
   \<and> displayedCount_p1 [4, 5] = Inr (Some 5)
   \<and> Object_keys (tally (map js_toString [4, 5])) = [''4'', ''5'']
   \<and> spec_mode (map js_toString [4, 5]) = Some ''4''
   \<and> count_list [4, 5] (4 :: nat) = count_list [4, 5] (5 :: nat)"
  by (simp add: key_evaluation spec_mode_def most_frequent_def)

text \<open>
  C5, amended. For a non-empty window of counts the displayed count is a most frequent
  value of the window. Among equally frequent values script_bkp.js displays the smallest:
  its \<open>mode\<close> returns the first of the most frequent keys in the order of \<open>Object.keys\<close>,
  which lists the keys of counts in ascending numeric order. part_001 displays the
  largest: its \<open>reduce\<close> keeps the later key on a tie. For \<open>[5,5,4,5,4,4,5]\<close> both display 5.
\<close>
theorem mode_displays_most_frequent:
  "(w \<noteq> [] \<and> (\<forall>v\<in>set w. v < 4294967295) \<longrightarrow>
      displayedCount_bkp w = Some (Min {v. most_frequent w v})
      \<and> displayedCount_p1 w = Inr (Some (Max {v. most_frequent w v}))
      \<and> most_frequent w (Min {v. most_frequent w v})
      \<and> most_frequent w (Max {v. most_frequent w v}))
   \<and> (list_all plain_key arr \<longrightarrow> mode_bkp arr = spec_mode arr)
   \<and> displayedCount_bkp [5, 5, 4, 5, 4, 4, 5] = Some 5
   \<and> displayedCount_p1 [5, 5, 4, 5, 4, 4, 5] = Inr (Some 5)"
proof -
  have general: "displayedCount_bkp w = Some (Min {v. most_frequent w v})
      \<and> displayedCount_p1 w = Inr (Some (Max {v. most_frequent w v}))
      \<and> most_frequent w (Min {v. most_frequent w v})
      \<and> most_frequent w (Max {v. most_frequent w v})"
    if ne: "w \<noteq> []" and bound: "\<forall>v\<in>set w. v < 4294967295"
  proof -
    from displayedCount_bkp_smallest [OF ne bound] obtain m where
      m: "displayedCount_bkp w = Some m" "most_frequent w m" "\<forall>v. most_frequent w v \<longrightarrow> m \<le> v"
      by blast
    from displayedCount_p1_largest [OF ne bound] obtain n where
      n: "displayedCount_p1 w = Inr (Some n)" "most_frequent w n" "\<forall>v. most_frequent w v \<longrightarrow> v \<le> n"
      by blast
    have "Min {v. most_frequent w v} = m"
      using m(2,3) by (intro Min_eqI finite_most_frequent) simp_all
    moreover have "Max {v. most_frequent w v} = n"
      using n(2,3) by (intro Max_eqI finite_most_frequent) simp_all
    ultimately show ?thesis using m(1,2) n(1,2) by simp
  qed
  have "displayedCount_bkp [5, 5, 4, 5, 4, 4, 5] = Some 5"
    by (simp add: key_evaluation)
  moreover have "displayedCount_p1 [5, 5, 4, 5, 4, 4, 5] = Inr (Some 5)"
    by (simp add: key_evaluation)
  ultimately show ?thesis using general mode_bkp_is_spec_mode [of arr] by blast
qed

theorem mode_displays_most_frequent_witness:
  "[5, 4] \<noteq> ([] :: nat list) \<and> list_all (\<lambda>v. v < 4294967295) [5, 4 :: nat]
   \<and> list_all plain_key [''Right'', ''Left'']
   \<and> displayedCount_bkp [5, 4] = Some 4 \<and> Min {v. most_frequent [5, 4 :: nat] v} = 4
   \<and> displayedCount_p1 [5, 4] = Inr (Some 5) \<and> Max {v. most_frequent [5, 4 :: nat] v} = 5
   \<and> spec_mode [''Right'', ''Left''] = Some ''Right''"
proof -
  have "displayedCount_bkp [5, 4] = Some 4" and "displayedCount_p1 [5, 4] = Inr (Some 5)"
    and "mode_bkp [''Right'', ''Left''] = Some ''Right''"
    by (simp_all add: key_evaluation)
  moreover have "list_all plain_key [''Right'', ''Left'']"
    by (simp add: plain_key_def Object_prototype_names_def)
  ultimately show ?thesis
    using mode_displays_most_frequent [of "[5, 4]" "[''Right'', ''Left'']"] by simp
qed










subsection \<open>Hand selection and the landmark check\<close>

lemma processFrame_outcomes:
  "snd (processFrame cfg cw ch (Hands hs) g) = (map (examine cfg cw ch) (shownHands cfg hs), None)"
proof (cases hs)
  case Nil
  then show ?thesis by (simp add: processFrame_def shownHands_def)
next
  case (Cons h hs')
  then show ?thesis by (simp add: processFrame_hands Let_def)
qed


lemma processFrame_skipped_first:
  assumes "\<not> has_21_keypoints h"
  shows "countHistory (fst (processFrame cfg cw ch (Hands (h # hs)) g)) = countHistory g"
    and "handHistory (fst (processFrame cfg cw ch (Hands (h # hs)) g)) = handHistory g"
    and "smoothCount (fst (processFrame cfg cw ch (Hands (h # hs)) g)) = smoothCount g"
    and "smoothHand (fst (processFrame cfg cw ch (Hands (h # hs)) g)) = smoothHand g"
proof -
  have "examine cfg cw ch h = Skipped" using assms by (simp add: examine_Skipped_iff)
  then show "countHistory (fst (processFrame cfg cw ch (Hands (h # hs)) g)) = countHistory g"
    and "handHistory (fst (processFrame cfg cw ch (Hands (h # hs)) g)) = handHistory g"
    and "smoothCount (fst (processFrame cfg cw ch (Hands (h # hs)) g)) = smoothCount g"
    and "smoothHand (fst (processFrame cfg cw ch (Hands (h # hs)) g)) = smoothHand g"
    by (simp_all add: processFrame_hands Let_def)
qed

lemma processFrame_shown_first:
  assumes "examine cfg cw ch h = Shown nl an lab"
  shows "countHistory (fst (processFrame cfg cw ch (Hands (h # hs)) g))
           = push_shift COUNT_HISTORY (countHistory g) (count an)"
  using assms by (simp add: processFrame_hands Let_def pushHistory_fields)



lemma plain_Unknown: "plain_key ''Unknown''"
  by (simp add: plain_key_def Object_prototype_names_def)

lemma tips_present_replicate: "20 < n \<Longrightarrow> tips_present (replicate n p)"
  by (simp add: tips_present_def tipIndices_def)

lemma angleBetween_same: "angleBetween p p p = 0"
  by (simp add: angleBetween_def Math_hypot_def)

lemma analyzeLandmarks_replicate:
  "20 < n \<Longrightarrow> analyzeLandmarks (replicate n p)
                 = \<lparr>extended = [False, False, False, False, False], count = 0\<rparr>"
  by (simp add: analyzeLandmarks_def Let_def fingers_def joint_angle_def straighter_than_def
      angleBetween_same)




lemma normLandmarks_of_unit:
  "lms \<noteq> [] \<Longrightarrow> px (hd lms) \<le> 1.5 \<Longrightarrow> normLandmarks_of cw ch (Some lms) = Some lms"
  by (cases lms) (simp_all add: normLandmarks_of_def)

text \<open>
  C8, as stated, fails for part_001, which has no landmark check: a hand of 22 landmarks
  is analysed, its count enters the window and is displayed.
\<close>
theorem landmark_check_counterexample:
  "length (replicate 22 (point2 0 0)) \<noteq> 21
   \<and> onResults_p1 False
        \<lparr>multiHandLandmarks = Some [replicate 22 (point2 0 0)], multiHandedness = None\<rparr>
        initial_globals_p1
      = (\<lparr>statusEl = ''Hand detected'', handedEl = ''Hand: Unknown'', countEl = ''Fingers: 0'',
          countHistory_mp = [0], handedHistory = [''Unknown'']\<rparr>,
         [(\<lparr>extended = [False, False, False, False, False], count = 0\<rparr>, ''Unknown'')],
         None)"
proof -
  have "displayedCount_p1 [0] = Inr (Some 0)" and "mode_p1 [''Unknown''] = Inr ''Unknown''"
    by (simp_all add: key_evaluation)
  then show ?thesis
    by (simp add: onResults_p1_def handsToShow_def analyzeLandmarks_replicate highlight_tips_def
        tips_present_replicate label_at_def mirrorLabel_def push_shift_def HISTORY_MAX_p1_def
        initial_globals_p1_def display_p1_def count_text_def js_toString_digit
        digit_char_values Let_def)
qed

text \<open>
  C8, amended. In part_000 a selected hand that does not have exactly 21 keypoints is
  skipped: it is not analysed, and when it is the first hand nothing is pushed into the
  windows and the smoothed values stay as they were; every other selected hand still gets
  its own outcome. The MediaPipe pages have no such check: part_001 and script_bkp.js
  analyse the first hand and push its count into the window whatever its number of
  landmarks.
\<close>
theorem landmark_check:
  "(examine cfg cw ch h = Skipped \<longleftrightarrow> \<not> has_21_keypoints h)
   \<and> (list_all (\<lambda>h. plain_key (rawLabel h)) hs \<longrightarrow>
        snd (processFrame cfg cw ch (Hands hs) g)
          = (map (examine cfg cw ch) (shownHands cfg hs), None))
   \<and> (\<not> has_21_keypoints h \<longrightarrow>
        countHistory (fst (processFrame cfg cw ch (Hands (h # rest)) g)) = countHistory g
        \<and> handHistory (fst (processFrame cfg cw ch (Hands (h # rest)) g)) = handHistory g
        \<and> smoothCount (fst (processFrame cfg cw ch (Hands (h # rest)) g)) = smoothCount g
        \<and> smoothHand (fst (processFrame cfg cw ch (Hands (h # rest)) g)) = smoothHand g)
   \<and> countHistory_mp (fst (onResults_p1 b (res\<lparr>multiHandLandmarks := Some (lm # lms)\<rparr>) m))
       = push_shift HISTORY_MAX_p1 (countHistory_mp m) (count (analyzeLandmarks lm))
   \<and> countHistory_mp (fst (onResults_bkp (res\<lparr>multiHandLandmarks := Some (lm # lms)\<rparr>) m))
       = push_shift HISTORY_MAX_bkp (countHistory_mp m) (count (analyzeLandmarks lm))"
  using examine_Skipped_iff [of cfg cw ch h] processFrame_outcomes [of cfg cw ch hs g]
    processFrame_skipped_first [of h cfg cw ch rest g]
    onResults_p1_histories(1) [of b lm lms res m] onResults_bkp_histories(1) [of lm lms res m]
  by simp

theorem landmark_check_witness:
  "\<not> has_21_keypoints
       \<lparr>keypoints3D = None, keypoints = Some (replicate 20 (point2 0 0)), handedness = None\<rparr>
   \<and> list_all (\<lambda>h. plain_key (rawLabel h))
       [\<lparr>keypoints3D = None, keypoints = Some (replicate 20 (point2 0 0)), handedness = None\<rparr>,
        \<lparr>keypoints3D = None, keypoints = Some (replicate 21 (point2 0 0)), handedness = None\<rparr>]
   \<and> fst (snd (processFrame \<lparr>showSkeleton = True, multiHand = True, mirror = False\<rparr> 1280 720
        (Hands
          [\<lparr>keypoints3D = None, keypoints = Some (replicate 20 (point2 0 0)), handedness = None\<rparr>,
           \<lparr>keypoints3D = None, keypoints = Some (replicate 21 (point2 0 0)), handedness = None\<rparr>])
        (observe_all initial_globals [(3, ''Left'')])))
      = [Skipped,
         Shown (replicate 21 \<lparr>px = 0, py = 0, pz = Some 0\<rparr>)
           \<lparr>extended = [False, False, False, False, False], count = 0\<rparr> ''Unknown'']
   \<and> countHistory (fst (processFrame \<lparr>showSkeleton = True, multiHand = True, mirror = False\<rparr>
        1280 720
        (Hands
          [\<lparr>keypoints3D = None, keypoints = Some (replicate 20 (point2 0 0)), handedness = None\<rparr>,
           \<lparr>keypoints3D = None, keypoints = Some (replicate 21 (point2 0 0)), handedness = None\<rparr>])
        (observe_all initial_globals [(3, ''Left'')]))) = [3]"
proof -
  have ex20: "examine \<lparr>showSkeleton = True, multiHand = True, mirror = False\<rparr> 1280 720
        \<lparr>keypoints3D = None, keypoints = Some (replicate 20 (point2 0 0)), handedness = None\<rparr>
        = Skipped"
    by (simp add: examine_Skipped_iff has_21_keypoints_def hand_keypoints_def)
  have "normLandmarks_of 1280 720 (Some (replicate 21 \<lparr>px = 0, py = 0, pz = Some 0\<rparr>))
          = Some (replicate 21 \<lparr>px = 0, py = 0, pz = Some 0\<rparr>)"
    by (rule normLandmarks_of_unit) simp_all
  then have ex21: "examine \<lparr>showSkeleton = True, multiHand = True, mirror = False\<rparr> 1280 720
        \<lparr>keypoints3D = None, keypoints = Some (replicate 21 (point2 0 0)), handedness = None\<rparr>
        = Shown (replicate 21 \<lparr>px = 0, py = 0, pz = Some 0\<rparr>)
           \<lparr>extended = [False, False, False, False, False], count = 0\<rparr> ''Unknown''"
    by (simp add: examine_def landmarks_of_def has_21_keypoints_def hand_keypoints_def
        point2_def z_or_0_def analyzeLandmarks_replicate rawLabel_def mirrorLabel_def)
  show ?thesis
    using landmark_check
      [where cfg = "\<lparr>showSkeleton = True, multiHand = True, mirror = False\<rparr>"
        and cw = 1280 and ch = 720
        and h = "\<lparr>keypoints3D = None, keypoints = Some (replicate 20 (point2 0 0)), handedness = None\<rparr>"
        and hs = "[\<lparr>keypoints3D = None, keypoints = Some (replicate 20 (point2 0 0)), handedness = None\<rparr>,
          \<lparr>keypoints3D = None, keypoints = Some (replicate 21 (point2 0 0)), handedness = None\<rparr>]"
        and g = "observe_all initial_globals [(3, ''Left'')]"
        and rest = "[\<lparr>keypoints3D = None, keypoints = Some (replicate 21 (point2 0 0)), handedness = None\<rparr>]"]
      ex20 ex21
    by (simp add: plain_Unknown rawLabel_def shownHands_def maxHands_def has_21_keypoints_def
        hand_keypoints_def pushHistory_fields push_shift_def initial_globals_def
        COUNT_HISTORY_def)
qed

end
